theory Spec2Isabelle
  imports Main "HOL-Library.Sublist" "HOL-Library.Multiset"
begin

section \<open>Text: lines and the two completion patterns\<close>

text \<open>
  Log text is a \<open>string\<close>, a list of characters with codes below 256. The characters
  among them that Python's \<open>str.splitlines\<close> treats as line boundaries are LF, VT, FF, CR,
  FS, GS, RS and NEL; CR LF counts as one boundary. The characters among them that \<open>\d\<close>
  matches are \<open>0\<close> to \<open>9\<close>.
\<close>

definition is_digit :: "char \<Rightarrow> bool" where
  "is_digit c = (c \<in> set ''0123456789'')"

definition is_linebreak :: "char \<Rightarrow> bool" where
  "is_linebreak c =
     (c \<in> set [CHR 0x0A, CHR 0x0B, CHR 0x0C, CHR 0x0D, CHR 0x1C, CHR 0x1D, CHR 0x1E, CHR 0x85])"

text \<open>\<open>str.splitlines()\<close>: no line ends are kept, and a final line end opens no empty line.\<close>

fun splitlines :: "string \<Rightarrow> string list" where
  "splitlines [] = []"
| "splitlines [c] = (if is_linebreak c then [[]] else [[c]])"
| "splitlines (c # d # cs) =
     (if c = CHR 0x0D \<and> d = CHR 0x0A then [] # splitlines cs
      else if is_linebreak c then [] # splitlines (d # cs)
      else (case splitlines (d # cs) of
              [] \<Rightarrow> [[c]]
            | l # ls \<Rightarrow> (c # l) # ls))"

text \<open>The slice \<open>xs[-100:]\<close>: the last hundred elements, or all of them when there are fewer.\<close>

definition last100 :: "'a list \<Rightarrow> 'a list" where
  "last100 xs = drop (length xs - 100) xs"

text \<open>
  \<open>_FINISH_RE = re.compile(r"Finished nupipeline for (\d+)")\<close>. \<open>finish_match_at s\<close> is
  the match anchored at the start of \<open>s\<close>, giving group 1 (the greedy, non-empty digit run);
  \<open>finish_search\<close> is \<open>_FINISH_RE.search\<close>: the match at the leftmost position that has one.
\<close>

definition finish_literal :: string where
  "finish_literal = ''Finished nupipeline for ''"

definition finish_match_at :: "string \<Rightarrow> string option" where
  "finish_match_at s =
     (if prefix finish_literal s
      then (let ds = takeWhile is_digit (drop (length finish_literal) s)
            in if ds = [] then None else Some ds)
      else None)"

fun finish_search :: "string \<Rightarrow> string option" where
  "finish_search [] = None"
| "finish_search (c # cs) =
     (case finish_match_at (c # cs) of
        Some ds \<Rightarrow> Some ds
      | None \<Rightarrow> finish_search cs)"

text \<open>
  \<open>FIN_RE = re.compile(r"^nuproducts done", re.M)\<close> searched over a whole text: with
  \<open>re.M\<close> the anchor holds at the start of the text and right after every LF.
  The flag of \<open>fin_scan\<close> says whether the current position is such a line start.
\<close>

definition fin_literal :: string where
  "fin_literal = ''nuproducts done''"

fun fin_scan :: "bool \<Rightarrow> string \<Rightarrow> bool" where
  "fin_scan bol [] = False"
| "fin_scan bol (c # cs) = ((bol \<and> prefix fin_literal (c # cs)) \<or> fin_scan (c = CHR 0x0A) cs)"

definition fin_search :: "string \<Rightarrow> bool" where
  "fin_search text = fin_scan True text"


section \<open>The file system\<close>

text \<open>
  A path is the list of its components; a file system gives every path its node.
  \<open>File s\<close> is a regular file whose decoded content is \<open>s\<close>; \<open>Unreadable\<close> is a
  regular file that exists and whose opening raises \<open>OSError\<close> (permissions, a failing
  device). \<open>pathlib\<close>'s queries and \<open>read_text\<close> are the functions below; every
  \<open>OSError\<close> of a read is the value \<open>Inl OSError\<close>. An observation id is one path
  component. Removing a tree is taken to succeed. In this section every \<open>stat\<close> is
  answered; the section on refused access lifts the two completion checks to a file system
  in which \<open>stat\<close> itself can raise.
\<close>

type_synonym path = "string list"

datatype node = Absent | Dir | File string | Unreadable

type_synonym fs = "path \<Rightarrow> node"

datatype error =
  OSError | FileExistsError | FileNotFoundError | SpawnError | JSONDecodeError | ValueError

definition exists_path :: "fs \<Rightarrow> path \<Rightarrow> bool" where
  "exists_path fs p = (fs p \<noteq> Absent)"

definition is_file :: "fs \<Rightarrow> path \<Rightarrow> bool" where
  "is_file fs p = (case fs p of File _ \<Rightarrow> True | Unreadable \<Rightarrow> True | _ \<Rightarrow> False)"

definition is_dir :: "fs \<Rightarrow> path \<Rightarrow> bool" where
  "is_dir fs p = (fs p = Dir)"

text \<open>
  \<open>Path.read_text\<close> opens the file in text mode with universal newlines: on reading, CR LF
  and a CR alone both become LF.
\<close>

fun universal_newlines :: "string \<Rightarrow> string" where
  "universal_newlines [] = []"
| "universal_newlines [c] = (if c = CHR 0x0D then [CHR 0x0A] else [c])"
| "universal_newlines (c # d # cs) =
     (if c = CHR 0x0D \<and> d = CHR 0x0A then CHR 0x0A # universal_newlines cs
      else if c = CHR 0x0D then CHR 0x0A # universal_newlines (d # cs)
      else c # universal_newlines (d # cs))"

definition read_text :: "fs \<Rightarrow> path \<Rightarrow> error + string" where
  "read_text fs p = (case fs p of File s \<Rightarrow> Inr (universal_newlines s) | _ \<Rightarrow> Inl OSError)"

text \<open>\<open>shutil.rmtree\<close>: the directory and everything below it is gone.\<close>

definition rmtree :: "path \<Rightarrow> fs \<Rightarrow> fs" where
  "rmtree d fs = (\<lambda>q. if prefix d q then Absent else fs q)"


section \<open>Stage 1: the completion check of \<open>run_nupipeline.py\<close>\<close>

record cfg1 =
  observations :: "string list"
  indir_base :: string
  outdir_base :: path
  clobber :: "string option"
  extra_args :: "string option"

definition outdir1 :: "cfg1 \<Rightarrow> string \<Rightarrow> path" where
  "outdir1 cfg obsid = outdir_base cfg @ [obsid @ ''_out'']"

definition log_path1 :: "cfg1 \<Rightarrow> string \<Rightarrow> path" where
  "log_path1 cfg obsid = outdir1 cfg obsid @ [''nupipeline.log'']"

text \<open>
  The loop \<open>for line in reversed(tail)\<close> of \<open>_needs_rerun\<close>: \<open>scan_tail obsid ls\<close> is true
  when the loop reaches its \<open>return False\<close> on the lines \<open>ls\<close>, taken in the given order.
\<close>

fun scan_tail :: "string \<Rightarrow> string list \<Rightarrow> bool" where
  "scan_tail obsid [] = False"
| "scan_tail obsid (line # rest) =
     (case finish_search line of
        Some g \<Rightarrow> (if g = obsid then True else scan_tail obsid rest)
      | None \<Rightarrow> scan_tail obsid rest)"

text \<open>\<open>_needs_rerun(obsid, cfg)\<close> of stage 1. The \<open>OSError\<close> of the read is caught.\<close>

definition needs_rerun1 :: "fs \<Rightarrow> cfg1 \<Rightarrow> string \<Rightarrow> bool" where
  "needs_rerun1 fs cfg obsid =
     (if \<not> is_file fs (log_path1 cfg obsid) then True
      else (case read_text fs (log_path1 cfg obsid) of
              Inl e \<Rightarrow> True
            | Inr text \<Rightarrow>
                (if scan_tail obsid (rev (last100 (splitlines text))) then False else True)))"


section \<open>Stage 1: planning and dispatch in \<open>main\<close> of \<open>run_nupipeline.py\<close>\<close>

text \<open>
  The planning loop. Its result is the file system it leaves, the work list in the order
  of the appends, and the actions it performed in order: \<open>Wiped d\<close> for
  \<open>shutil.rmtree(d)\<close>, \<open>Queued obs\<close> for \<open>worklist.append(obs)\<close> and \<open>Skipped obs\<close>
  for the branch that only logs.
\<close>

datatype plan_event = Wiped path | Queued string | Skipped string

fun plan1 :: "cfg1 \<Rightarrow> fs \<Rightarrow> string list \<Rightarrow> fs \<times> string list \<times> plan_event list" where
  "plan1 cfg fs [] = (fs, [], [])"
| "plan1 cfg fs (obs # rest) =
     (if needs_rerun1 fs cfg obs
      then (let outdir = outdir1 cfg obs;
                wipe = is_dir fs outdir;
                fs1 = (if wipe then rmtree outdir fs else fs);
                (fs2, worklist, events) = plan1 cfg fs1 rest
            in (fs2, obs # worklist, (if wipe then [Wiped outdir] else []) @ Queued obs # events))
      else (let (fs2, worklist, events) = plan1 cfg fs rest
            in (fs2, worklist, Skipped obs # events)))"

text \<open>
  A future either holds the value its worker returned or raises the exception the worker
  died of. Futures are identified by their position in the order of submission;
  \<open>as_completed\<close> yields them in some order of completion \<open>order\<close>, each paired with
  the unit the driver's dictionary stores for it. In a run in which every worker comes to
  an end, \<open>order\<close> is a permutation of the submitted positions (\<open>all_complete\<close>).
\<close>

datatype 'a fut = Value 'a | Raises error

text \<open>
  An external tool is opaque. Its argument vector is a function of the worker's arguments,
  so its behaviour is taken as a function of them: either the process cannot be started
  (\<open>subprocess.call\<close> raises), or it runs, writes some output and exits with a code.
  \<open>_launch_one(args)\<close> has no \<open>try\<close>: it returns the id with the exit code, or raises.
\<close>

datatype tool_result = Exits int string | CannotSpawn

definition launch_one :: "(string \<times> cfg1 \<Rightarrow> tool_result) \<Rightarrow> string \<times> cfg1 \<Rightarrow> (string \<times> int) fut" where
  "launch_one tool args =
     (case args of (obsid, cfg) \<Rightarrow>
        (case tool args of
           CannotSpawn \<Rightarrow> Raises SpawnError
         | Exits rc out \<Rightarrow> Value (obsid, rc)))"

definition as_completed :: "nat list \<Rightarrow> 'u list \<Rightarrow> (nat \<Rightarrow> 'r fut) \<Rightarrow> ('u \<times> 'r fut) list" where
  "as_completed order units res = map (\<lambda>i. (units ! i, res i)) order"

definition all_complete :: "nat list \<Rightarrow> 'u list \<Rightarrow> bool" where
  "all_complete order units = (mset order = mset [0..<length units])"

text \<open>
  The dispatch loop of stage 1. \<open>fut.result()[1]\<close> stands in no \<open>try\<close>: a raising
  future ends the loop with that exception, and what later futures hold is never read.
\<close>

datatype report1 = ExitedWithCode string int | FinishedOK string

fun dispatch1 :: "(string \<times> (string \<times> int) fut) list \<Rightarrow> report1 list \<times> error option" where
  "dispatch1 [] = ([], None)"
| "dispatch1 ((obs, Raises e) # rest) = ([], Some e)"
| "dispatch1 ((obs, Value (obsid, rc)) # rest) =
     (let (reports, raised) = dispatch1 rest
      in ((if rc \<noteq> 0 then ExitedWithCode obs rc else FinishedOK obs) # reports, raised))"

text \<open>
  How a process ends: \<open>main\<close> returns (status 0), \<open>sys.exit\<close> with a message (the message
  goes to standard error, status 1), \<open>sys.exit\<close> with a number, or an exception nobody
  caught (traceback, status 1).
\<close>

datatype fatal = EnvNotDefined "string list" | ConfigNotFound string | HeasoftNotInitialised

datatype ending = Returns | SysExitMsg fatal | SysExit int | Uncaught error

fun exit_status :: "ending \<Rightarrow> int" where
  "exit_status Returns = 0"
| "exit_status (SysExitMsg m) = 1"
| "exit_status (SysExit n) = n"
| "exit_status (Uncaught e) = 1"


text \<open>
  What \<open>main\<close> of stage 1 reads from the world: the environment, the configuration files by
  name (missing, present but not loadable as the JSON object the driver indexes, or
  loaded), the number of CPUs and the file system.
\<close>

datatype 'a config_file = Missing | NotLoadable | Loaded 'a

record world1 =
  environ1 :: "string \<rightharpoonup> string"
  config1 :: "string \<Rightarrow> cfg1 config_file"
  cpu_count1 :: nat
  files1 :: fs

datatype job_setting = Auto | Off | Count int | NotANumber

definition resolve_workers :: "nat \<Rightarrow> job_setting \<Rightarrow> error + int" where
  "resolve_workers ncpu job_setting =
     (case job_setting of
        Auto \<Rightarrow> Inr (max 1 (int ncpu div 2))
      | Off \<Rightarrow> Inr 1
      | Count n \<Rightarrow> Inr n
      | NotANumber \<Rightarrow> Inl ValueError)"

record run1 =
  ending_of :: ending
  files_of :: fs
  plan_events_of :: "plan_event list"
  submitted_of :: "string list"
  reports_of :: "report1 list"

definition stopped1 :: "ending \<Rightarrow> fs \<Rightarrow> run1" where
  "stopped1 e fs =
     \<lparr>ending_of = e, files_of = fs, plan_events_of = [], submitted_of = [], reports_of = []\<rparr>"

definition main1 ::
  "world1 \<Rightarrow> string \<Rightarrow> job_setting \<Rightarrow> nat list \<Rightarrow> (nat \<Rightarrow> (string \<times> int) fut) \<Rightarrow> run1" where
  "main1 w cfg_path job_setting order res =
     (let missing = filter (\<lambda>v. environ1 w v = None) [''HEADAS'', ''CALDB'']
      in if missing \<noteq> [] then stopped1 (SysExitMsg (EnvNotDefined missing)) (files1 w)
      else (case config1 w cfg_path of
              Missing \<Rightarrow> stopped1 (SysExitMsg (ConfigNotFound cfg_path)) (files1 w)
            | NotLoadable \<Rightarrow> stopped1 (Uncaught JSONDecodeError) (files1 w)
            | Loaded cfg \<Rightarrow>
                (case resolve_workers (cpu_count1 w) job_setting of
                   Inl e \<Rightarrow> stopped1 (Uncaught e) (files1 w)
                 | Inr max_workers \<Rightarrow>
                     (let (fs2, worklist, events) = plan1 cfg (files1 w) (observations cfg)
                      in if worklist = []
                         then \<lparr>ending_of = Returns, files_of = fs2, plan_events_of = events,
                               submitted_of = [], reports_of = []\<rparr>
                         else if max_workers \<le> 0
                         then \<lparr>ending_of = Uncaught ValueError, files_of = fs2,
                               plan_events_of = events, submitted_of = [], reports_of = []\<rparr>
                         else (let (reports, raised) =
                                     dispatch1 (as_completed order worklist res)
                               in \<lparr>ending_of = (case raised of None \<Rightarrow> Returns
                                                              | Some e \<Rightarrow> Uncaught e),
                                   files_of = fs2, plan_events_of = events,
                                   submitted_of = worklist, reports_of = reports\<rparr>)))))"

section \<open>Stage 2: the launcher of \<open>run_nuproducts.py\<close>\<close>

text \<open>
  The two configuration objects, with the keys the driver reads. Radii, bin sizes and
  channel bounds are JSON integers. A task is the tuple \<open>(obs, det, {**ocfg, **rcfg}, comb)\<close>.
\<close>

datatype det = A | B

record ocfg =
  observations2 :: "string list"
  outdir_base2 :: path
  products_base :: path

record rcfg =
  src_radii_arcsec :: "int list"
  bkg_annuli_arcsec :: "(int \<times> int) list"
  bin_sizes_s :: "int list"
  pilow :: int
  pihigh :: int

type_synonym comb = "int \<times> int \<times> int \<times> int"

type_synonym task = "string \<times> det \<times> (ocfg \<times> rcfg) \<times> comb"

text \<open>\<open>str\<close> of an integer, and the format specification \<open>03d\<close> (sign first, then zeros up to width 3).\<close>

fun dec :: "nat \<Rightarrow> string" where
  "dec n = (if n < 10 then [''0123456789'' ! n] else dec (n div 10) @ [''0123456789'' ! (n mod 10)])"

declare dec.simps [simp del]

definition str_int :: "int \<Rightarrow> string" where
  "str_int n = (if n < 0 then ''-'' @ dec (nat (- n)) else dec (nat n))"

definition fmt_03d :: "int \<Rightarrow> string" where
  "fmt_03d n =
     (let sign = (if n < 0 then ''-'' else []); ds = dec (nat \<bar>n\<bar>)
      in sign @ replicate (3 - length sign - length ds) (CHR ''0'') @ ds)"

fun det_str :: "det \<Rightarrow> string" where
  "det_str A = ''A''"
| "det_str B = ''B''"

fun outdir2 :: "task \<Rightarrow> path" where
  "outdir2 (obsid, det, cfg, (r_src, rin, rout, binsize)) =
     products_base (fst cfg) @
       [obsid,
        det_str det @ ''_src'' @ fmt_03d r_src @ ''_bkg'' @ fmt_03d rin @ ''-'' @ fmt_03d rout
          @ ''_bin'' @ str_int binsize]"

definition log_path2 :: "path \<Rightarrow> path" where
  "log_path2 outdir = outdir @ [''nuproducts.log'']"

text \<open>
  \<open>_needs_rerun(outdir)\<close> of stage 2: one expression, in no \<open>try\<close>, so an \<open>OSError\<close> of
  the read is the result \<open>Inl\<close>.
\<close>

definition needs_rerun2 :: "fs \<Rightarrow> path \<Rightarrow> error + bool" where
  "needs_rerun2 fs outdir =
     (if exists_path fs (log_path2 outdir)
      then (case read_text fs (log_path2 outdir) of
              Inl e \<Rightarrow> Inl e
            | Inr text \<Rightarrow> Inr (\<not> fin_search text))
      else Inr True)"

text \<open>
  \<open>outdir.mkdir(parents=True, exist_ok=True)\<close>: a directory that is there is left alone, a
  missing one is made after its parent, and a path or an ancestor that is a file raises
  before anything is made.
\<close>

function mkdir_p :: "fs \<Rightarrow> path \<Rightarrow> error + fs" where
  "mkdir_p fs p =
     (case fs p of
        Dir \<Rightarrow> Inr fs
      | File s \<Rightarrow> Inl FileExistsError
      | Unreadable \<Rightarrow> Inl FileExistsError
      | Absent \<Rightarrow>
          (if p = [] then Inl FileNotFoundError
           else (case mkdir_p fs (butlast p) of
                   Inl e \<Rightarrow> Inl e
                 | Inr fs1 \<Rightarrow> Inr (fs1(p := Dir)))))"
  by pat_completeness auto
termination
  by (relation "measure (\<lambda>(fs, p). length p)") auto

declare mkdir_p.simps [simp del]

text \<open>\<open>open(p, "w")\<close> (the file is emptied or created) and a write through \<open>open(p, "a")\<close>.\<close>

definition open_w :: "fs \<Rightarrow> path \<Rightarrow> error + fs" where
  "open_w fs p =
     (case fs p of
        File s \<Rightarrow> Inr (fs(p := File []))
      | Absent \<Rightarrow> (if p \<noteq> [] \<and> fs (butlast p) = Dir then Inr (fs(p := File [])) else Inl OSError)
      | Dir \<Rightarrow> Inl OSError
      | Unreadable \<Rightarrow> Inl OSError)"

definition append_text :: "fs \<Rightarrow> path \<Rightarrow> string \<Rightarrow> error + fs" where
  "append_text fs p text =
     (case fs p of
        File s \<Rightarrow> Inr (fs(p := File (s @ text)))
      | Absent \<Rightarrow> (if p \<noteq> [] \<and> fs (butlast p) = Dir then Inr (fs(p := File text)) else Inl OSError)
      | Dir \<Rightarrow> Inl OSError
      | Unreadable \<Rightarrow> Inl OSError)"

definition marker_line :: string where
  "marker_line = [CHR 0x0A] @ ''nuproducts done'' @ [CHR 0x0A]"

text \<open>
  \<open>_launch(args)\<close>. The result is the file system it leaves, its actions in order, and what
  the worker's future will hold. The stage-2 tool is opaque as the stage-1 tool is:
  \<open>Exits rc out\<close> says that it ran, left \<open>out\<close> in the log it was given as standard
  output, and exited with \<open>rc\<close>; of what else it writes nothing is said. The actions are
  \<open>MadeDir\<close> for the call of \<open>mkdir\<close>, \<open>Checked\<close> for the call of \<open>_needs_rerun\<close>,
  \<open>OpenedLog\<close> for \<open>open(log, "w")\<close>, \<open>CallReturned rc\<close> for the return of
  \<open>subprocess.call\<close> with \<open>rc\<close>, and \<open>MarkerAppended\<close> for the write of the marker.
\<close>

datatype launch_event =
  MadeDir path | Checked path | OpenedLog path | CallReturned int | MarkerAppended path

type_synonym outcome = "string \<times> det \<times> comb \<times> int"

definition launch :: "(task \<Rightarrow> tool_result) \<Rightarrow> fs \<Rightarrow> task \<Rightarrow> fs \<times> launch_event list \<times> outcome fut" where
  "launch tool fs t =
     (case t of (obsid, det, cfg, comb) \<Rightarrow>
        (let outdir = outdir2 t; log = log_path2 outdir
         in case mkdir_p fs outdir of
              Inl e \<Rightarrow> (fs, [], Raises e)
            | Inr fs1 \<Rightarrow>
                (case needs_rerun2 fs1 outdir of
                   Inl e \<Rightarrow> (fs1, [MadeDir outdir, Checked log], Raises e)
                 | Inr False \<Rightarrow> (fs1, [MadeDir outdir, Checked log], Value (obsid, det, comb, 0))
                 | Inr True \<Rightarrow>
                     (case open_w fs1 log of
                        Inl e \<Rightarrow> (fs1, [MadeDir outdir, Checked log], Raises e)
                      | Inr fs2 \<Rightarrow>
                          (case tool t of
                             CannotSpawn \<Rightarrow>
                               (fs2, [MadeDir outdir, Checked log, OpenedLog log], Raises SpawnError)
                           | Exits rc out \<Rightarrow>
                               (let fs3 = fs2(log := File out);
                                    acts = [MadeDir outdir, Checked log, OpenedLog log, CallReturned rc]
                                in if rc = 0
                                   then (case append_text fs3 log marker_line of
                                           Inl e \<Rightarrow> (fs3, acts, Raises e)
                                         | Inr fs4 \<Rightarrow>
                                             (fs4, acts @ [MarkerAppended log],
                                              Value (obsid, det, comb, rc)))
                                   else (fs3, acts, Value (obsid, det, comb, rc))))))))"


section \<open>Stage 2: \<open>main\<close> of \<open>run_nuproducts.py\<close>\<close>

record world2 =
  environ2 :: "string \<rightharpoonup> string"
  region_cfg :: "rcfg config_file"
  obslist :: "ocfg config_file"
  cpu_count2 :: nat
  files2 :: fs

definition combos_of :: "rcfg \<Rightarrow> comb list" where
  "combos_of rc =
     [(r_src, rin, rout, binsize).
        r_src \<leftarrow> src_radii_arcsec rc, (rin, rout) \<leftarrow> bkg_annuli_arcsec rc, binsize \<leftarrow> bin_sizes_s rc]"

definition tasks_of :: "ocfg \<Rightarrow> rcfg \<Rightarrow> task list" where
  "tasks_of oc rc =
     [(obs, det, (oc, rc), comb). obs \<leftarrow> observations2 oc, det \<leftarrow> [A, B], comb \<leftarrow> combos_of rc]"

text \<open>
  An entry of \<open>failures\<close> carries an exit code or the string \<open>"exception"\<close>. The loop
  reports every future once: an exception, a failure with its code, or a completion.
  On the exception path the loop has only \<open>obsid, det, comb = futs[fut][:3]\<close>, and the
  first three elements of a task are \<open>(obs, det, cfg)\<close>: the name \<open>comb\<close> is bound to the
  configuration there. So the third component of an entry is a parameter combination
  (returned by the worker) or a configuration (on the exception path).
\<close>

datatype status = ExitCode int | Exception

datatype third = Combination comb | Configuration "ocfg \<times> rcfg"

type_synonym failure = "string \<times> det \<times> third \<times> status"

datatype report2 =
  RaisedException string det "ocfg \<times> rcfg"
| Failed string det comb int
| Completed string det comb

fun collect2 :: "(task \<times> outcome fut) list \<Rightarrow> report2 list \<times> failure list" where
  "collect2 [] = ([], [])"
| "collect2 (((obsid, det, comb, fourth), Raises e) # rest) =
     (let (reports, failures) = collect2 rest
      in (RaisedException obsid det comb # reports,
          (obsid, det, Configuration comb, Exception) # failures))"
| "collect2 (((obsid, det, comb, fourth), Value (oid, detd, combd, rc)) # rest) =
     (let (reports, failures) = collect2 rest
      in if rc \<noteq> 0
         then (Failed oid detd combd rc # reports,
               (oid, detd, Combination combd, ExitCode rc) # failures)
         else (Completed oid detd combd # reports, failures))"

record run2 =
  ending2_of :: ending
  submitted2_of :: "task list"
  reports2_of :: "report2 list"
  failures_of :: "failure list"

definition stopped2 :: "ending \<Rightarrow> run2" where
  "stopped2 e = \<lparr>ending2_of = e, submitted2_of = [], reports2_of = [], failures_of = []\<rparr>"

text \<open>
  \<open>main\<close> of stage 2 reads both configuration files, in no \<open>try\<close> and with no test that
  they exist, before it tests the environment. Its pool has \<open>max(1, cpu_count // 2)\<close>
  workers, so the pool can always be made. It ends by \<open>sys.exit(1)\<close> or \<open>sys.exit(0)\<close>.
\<close>

definition main2 :: "world2 \<Rightarrow> nat list \<Rightarrow> (nat \<Rightarrow> outcome fut) \<Rightarrow> run2" where
  "main2 w order res =
     (case region_cfg w of
        Missing \<Rightarrow> stopped2 (Uncaught FileNotFoundError)
      | NotLoadable \<Rightarrow> stopped2 (Uncaught JSONDecodeError)
      | Loaded rc \<Rightarrow>
          (case obslist w of
             Missing \<Rightarrow> stopped2 (Uncaught FileNotFoundError)
           | NotLoadable \<Rightarrow> stopped2 (Uncaught JSONDecodeError)
           | Loaded oc \<Rightarrow>
               (if environ2 w ''HEADAS'' = None \<or> environ2 w ''CALDB'' = None
                then stopped2 (SysExitMsg HeasoftNotInitialised)
                else (let tasks = tasks_of oc rc;
                          (reports, failures) = collect2 (as_completed order tasks res)
                      in \<lparr>ending2_of = (if failures \<noteq> [] then SysExit 1 else SysExit 0),
                          submitted2_of = tasks, reports2_of = reports,
                          failures_of = failures\<rparr>))))"

text \<open>
  What the loop of stage 2 does with one future, taken alone: the line it reports and the
  entry, if any, it appends to \<open>failures\<close>. The lemmas \<open>collect2_reports\<close> and
  \<open>collect2_failures\<close> show that the loop is exactly this, future by future.
\<close>

fun report2_of :: "task \<times> outcome fut \<Rightarrow> report2" where
  "report2_of ((obsid, det, cfg, comb), Raises e) = RaisedException obsid det cfg"
| "report2_of (t, Value (oid, detd, combd, rc)) =
     (if rc \<noteq> 0 then Failed oid detd combd rc else Completed oid detd combd)"

fun failure_of :: "task \<times> outcome fut \<Rightarrow> failure list" where
  "failure_of ((obsid, det, cfg, comb), Raises e) = [(obsid, det, Configuration cfg, Exception)]"
| "failure_of (t, Value (oid, detd, combd, rc)) =
     (if rc \<noteq> 0 then [(oid, detd, Combination combd, ExitCode rc)] else [])"


section \<open>The completion checks when access is refused\<close>

text \<open>
  \<open>Path.is_file\<close> and \<open>Path.exists\<close> call \<open>stat\<close> and pass on every \<open>OSError\<close>
  other than "no such file" and its kin: a log in a directory that the process may not
  search makes them raise \<open>PermissionError\<close>. \<open>denied p\<close> says that \<open>stat\<close> and
  \<open>open\<close> of \<open>p\<close> are refused in this way. In \<open>_needs_rerun\<close> of stage 1 the test
  \<open>log_path.is_file()\<close> stands before the \<open>try\<close>, and only the read stands in it;
  \<open>_needs_rerun\<close> of stage 2 has no \<open>try\<close> at all. Where nothing is refused these are the
  checks of the sections above (lemmas \<open>needs_rerun1_io_granted\<close> and
  \<open>needs_rerun2_io_granted\<close>).
\<close>

definition is_file_io :: "(path \<Rightarrow> bool) \<Rightarrow> fs \<Rightarrow> path \<Rightarrow> error + bool" where
  "is_file_io denied fs p = (if denied p then Inl OSError else Inr (is_file fs p))"

definition exists_io :: "(path \<Rightarrow> bool) \<Rightarrow> fs \<Rightarrow> path \<Rightarrow> error + bool" where
  "exists_io denied fs p = (if denied p then Inl OSError else Inr (exists_path fs p))"

definition read_text_io :: "(path \<Rightarrow> bool) \<Rightarrow> fs \<Rightarrow> path \<Rightarrow> error + string" where
  "read_text_io denied fs p = (if denied p then Inl OSError else read_text fs p)"

definition needs_rerun1_io :: "(path \<Rightarrow> bool) \<Rightarrow> fs \<Rightarrow> cfg1 \<Rightarrow> string \<Rightarrow> error + bool" where
  "needs_rerun1_io denied fs cfg obsid =
     (case is_file_io denied fs (log_path1 cfg obsid) of
        Inl e \<Rightarrow> Inl e
      | Inr False \<Rightarrow> Inr True
      | Inr True \<Rightarrow>
          (case read_text_io denied fs (log_path1 cfg obsid) of
             Inl e \<Rightarrow> Inr True
           | Inr text \<Rightarrow>
               Inr (if scan_tail obsid (rev (last100 (splitlines text))) then False else True)))"

definition needs_rerun2_io :: "(path \<Rightarrow> bool) \<Rightarrow> fs \<Rightarrow> path \<Rightarrow> error + bool" where
  "needs_rerun2_io denied fs outdir =
     (case exists_io denied fs (log_path2 outdir) of
        Inl e \<Rightarrow> Inl e
      | Inr False \<Rightarrow> Inr True
      | Inr True \<Rightarrow>
          (case read_text_io denied fs (log_path2 outdir) of
             Inl e \<Rightarrow> Inl e
           | Inr text \<Rightarrow> Inr (\<not> fin_search text)))"


section \<open>Concrete inputs\<close>

text \<open>
  A stage-1 batch of three observations: \<open>1\<close> was interrupted (a directory with a log that
  has no finished line), \<open>2\<close> is finished, \<open>3\<close> was never started. A stage-2 batch of one
  observation, two source radii, one annulus and one bin size, in which the unit of
  detector A and radius 30 is already done.
\<close>

definition env_demo :: "string \<rightharpoonup> string" where
  "env_demo = [''HEADAS'' \<mapsto> ''/opt/heasoft'', ''CALDB'' \<mapsto> ''/opt/caldb'']"

definition cfg_demo :: cfg1 where
  "cfg_demo = \<lparr>observations = [''1'', ''2'', ''3''], indir_base = ''in'', outdir_base = [''out''],
                clobber = None, extra_args = None\<rparr>"

definition fs_demo1 :: fs where
  "fs_demo1 = (\<lambda>p. Absent)
     ([] := Dir,
      [''out''] := Dir,
      [''out'', ''1_out''] := Dir,
      [''out'', ''1_out'', ''nupipeline.log''] := File ''started'',
      [''out'', ''1_out'', ''event_cl''] := Dir,
      [''out'', ''2_out''] := Dir,
      [''out'', ''2_out'', ''nupipeline.log''] :=
         File (''started'' @ [CHR 0x0A] @ ''Finished nupipeline for 2'' @ [CHR 0x0A]))"

definition world_demo1 :: world1 where
  "world_demo1 =
     \<lparr>environ1 = env_demo,
      config1 = (\<lambda>name. if name = ''obslist.json'' then Loaded cfg_demo else Missing),
      cpu_count1 = 4,
      files1 = fs_demo1\<rparr>"

definition ocfg_demo :: ocfg where
  "ocfg_demo = \<lparr>observations2 = [''1''], outdir_base2 = [''out''], products_base = [''products'']\<rparr>"

definition rcfg_demo :: rcfg where
  "rcfg_demo = \<lparr>src_radii_arcsec = [30, 50], bkg_annuli_arcsec = [(70, 120)], bin_sizes_s = [10],
                 pilow = 35, pihigh = 1909\<rparr>"

definition task_demo :: task where
  "task_demo = (''1'', A, (ocfg_demo, rcfg_demo), (30, 70, 120, 10))"

definition outdir_demo :: path where
  "outdir_demo = [''products'', ''1'', ''A_src030_bkg070-120_bin10'']"

definition fs_demo2 :: fs where
  "fs_demo2 = (\<lambda>p. Absent)
     ([] := Dir,
      [''products''] := Dir,
      [''products'', ''1''] := Dir,
      outdir_demo := Dir,
      log_path2 outdir_demo := File (''ok'' @ marker_line))"

definition world_demo2 :: world2 where
  "world_demo2 =
     \<lparr>environ2 = env_demo, region_cfg = Loaded rcfg_demo, obslist = Loaded ocfg_demo,
      cpu_count2 = 4, files2 = fs_demo2\<rparr>"

text \<open>
  Results for the two futures of the stage-1 demo batch (positions 0 and 1 are observations
  \<open>1\<close> and \<open>3\<close>): observation \<open>1\<close> exits with code 2; the future of observation \<open>1\<close>
  raises; the futures are those of \<open>_launch_one\<close> with a tool that cannot be started for
  observation \<open>1\<close>. For stage 2: the futures of the launcher run on the demo file system
  with a tool that exits with code 0; and the demo file system with the log of the finished
  unit made unreadable.
\<close>

definition results1_exit2 :: "nat \<Rightarrow> (string \<times> int) fut" where
  "results1_exit2 i = (if i = 0 then Value (''1'', 2) else Value (''3'', 0))"

definition results1_raise :: "nat \<Rightarrow> (string \<times> int) fut" where
  "results1_raise i = (if i = 0 then Raises SpawnError else Value (''3'', 0))"

definition tool1_demo :: "string \<times> cfg1 \<Rightarrow> tool_result" where
  "tool1_demo args = (if fst args = ''1'' then CannotSpawn else Exits 0 [])"

definition results1_tool :: "nat \<Rightarrow> (string \<times> int) fut" where
  "results1_tool i = launch_one tool1_demo ([''1'', ''3''] ! i, cfg_demo)"

definition tool2_ok :: "task \<Rightarrow> tool_result" where
  "tool2_ok t = Exits 0 ''extracted''"

definition results2_ok :: "nat \<Rightarrow> outcome fut" where
  "results2_ok i = snd (snd (launch tool2_ok fs_demo2 (tasks_of ocfg_demo rcfg_demo ! i)))"

definition fs_demo2_unreadable :: fs where
  "fs_demo2_unreadable = fs_demo2(log_path2 outdir_demo := Unreadable)"

text \<open>
  A stage-1 log for observation \<open>7\<close> whose first line is the finished line and which
  goes on with \<open>n\<close> empty lines, every line ending in LF.
\<close>

definition lines_demo :: "nat \<Rightarrow> string list" where
  "lines_demo n = ''Finished nupipeline for 7'' # replicate n []"

definition terminated_demo :: "nat \<Rightarrow> (string \<times> string) list" where
  "terminated_demo n = map (\<lambda>l. (l, [CHR 0x0A])) (lines_demo n)"

definition fs_lines_demo :: "nat \<Rightarrow> fs" where
  "fs_lines_demo n =
     (\<lambda>p. Absent)(log_path1 cfg_demo ''7'' :=
        File (concat (map (\<lambda>(l, t). l @ t) (terminated_demo n))))"

section \<open>Facts about the patterns\<close>

lemma finish_match_at_sound:
  assumes "finish_match_at s = Some ds"
  shows "ds \<noteq> [] \<and> list_all is_digit ds \<and> prefix (finish_literal @ ds) s"
proof -
  from assms have p: "prefix finish_literal s"
    and d: "ds = takeWhile is_digit (drop (length finish_literal) s)" and ne: "ds \<noteq> []"
    by (auto simp: finish_match_at_def Let_def split: if_splits)
  from p obtain r where s: "s = finish_literal @ r" by (auto simp: prefix_def)
  with d have "ds = takeWhile is_digit r" by simp
  then have "prefix ds r" and "list_all is_digit ds"
    by (auto simp: list_all_iff dest: set_takeWhileD intro: takeWhile_is_prefix)
  with s ne show ?thesis by simp
qed

lemma finish_search_sound:
  "finish_search s = Some ds \<Longrightarrow>
     ds \<noteq> [] \<and> list_all is_digit ds \<and> (\<exists>pre post. s = pre @ finish_literal @ ds @ post)"
proof (induction s)
  case Nil
  then show ?case by simp
next
  case (Cons c cs)
  show ?case
  proof (cases "finish_match_at (c # cs)")
    case None
    with Cons.prems have "finish_search cs = Some ds" by simp
    from Cons.IH[OF this] obtain pre post where
      "ds \<noteq> []" "list_all is_digit ds" "cs = pre @ finish_literal @ ds @ post" by blast
    then have "c # cs = (c # pre) @ finish_literal @ ds @ post" by simp
    with \<open>ds \<noteq> []\<close> \<open>list_all is_digit ds\<close> show ?thesis by blast
  next
    case (Some a)
    with Cons.prems have "a = ds" by simp
    with Some have m: "finish_match_at (c # cs) = Some ds" by simp
    from finish_match_at_sound[OF m] obtain post where
      "ds \<noteq> []" "list_all is_digit ds" "c # cs = (finish_literal @ ds) @ post"
      by (auto simp: prefix_def)
    then have "c # cs = [] @ finish_literal @ ds @ post" by simp
    with \<open>ds \<noteq> []\<close> \<open>list_all is_digit ds\<close> show ?thesis by blast
  qed
qed

lemma finish_search_None_iff:
  "finish_search s = None \<longleftrightarrow> (\<forall>pre rest. s = pre @ rest \<longrightarrow> finish_match_at rest = None)"
proof (induction s)
  case Nil
  then show ?case by (simp add: finish_match_at_def finish_literal_def)
next
  case (Cons c cs)
  show ?case
  proof
    assume n: "finish_search (c # cs) = None"
    then have here: "finish_match_at (c # cs) = None" and there: "finish_search cs = None"
      by (auto split: option.splits)
    show "\<forall>pre rest. c # cs = pre @ rest \<longrightarrow> finish_match_at rest = None"
    proof (intro allI impI)
      fix pre rest assume e: "c # cs = pre @ rest"
      show "finish_match_at rest = None"
      proof (cases pre)
        case Nil
        with e here show ?thesis by simp
      next
        case (Cons a pre')
        with e have "cs = pre' @ rest" by simp
        with there Cons.IH show ?thesis by blast
      qed
    qed
  next
    assume a: "\<forall>pre rest. c # cs = pre @ rest \<longrightarrow> finish_match_at rest = None"
    then have here: "finish_match_at (c # cs) = None" by (metis append_Nil)
    have "\<forall>pre rest. cs = pre @ rest \<longrightarrow> finish_match_at rest = None"
      using a by (metis append_Cons)
    with Cons.IH have "finish_search cs = None" by blast
    with here show "finish_search (c # cs) = None" by simp
  qed
qed

lemma splitlines_linebreak:
  "is_linebreak b \<Longrightarrow> \<not> (b = CHR 0x0D \<and> xs \<noteq> [] \<and> hd xs = CHR 0x0A) \<Longrightarrow>
     splitlines (b # xs) = [] # splitlines xs"
  by (cases xs) auto

lemma splitlines_not_CR:
  "c \<noteq> CHR 0x0D \<Longrightarrow>
     splitlines (c # ys) =
       (if is_linebreak c then [] # splitlines ys
        else (case splitlines ys of [] \<Rightarrow> [[c]] | l # ls \<Rightarrow> (c # l) # ls))"
  by (cases ys) auto

lemma LF_is_linebreak: "is_linebreak (CHR 0x0A)"
  by (simp add: is_linebreak_def)

lemma CR_is_linebreak: "is_linebreak (CHR 0x0D)"
  by (simp add: is_linebreak_def)

text \<open>
  For \<open>splitlines\<close> the translation of the read changes nothing, since CR, CR LF and LF
  are line boundaries alike. For the anchored pattern of stage 2 it matters.
\<close>

lemma splitlines_universal_newlines: "splitlines (universal_newlines s) = splitlines s"
proof (induction s rule: universal_newlines.induct)
  case 1
  show ?case by simp
next
  case (2 c)
  show ?case by (simp add: LF_is_linebreak CR_is_linebreak)
next
  case (3 c d cs)
  show ?case
  proof (cases "c = CHR 0x0D")
    case cr: True
    show ?thesis
    proof (cases "d = CHR 0x0A")
      case True
      with cr 3 show ?thesis by (simp add: splitlines_linebreak LF_is_linebreak)
    next
      case False
      with cr 3 show ?thesis
        by (simp add: splitlines_linebreak LF_is_linebreak CR_is_linebreak)
    qed
  next
    case False
    with 3 have ih: "splitlines (universal_newlines (d # cs)) = splitlines (d # cs)" by simp
    have "universal_newlines (c # d # cs) = c # universal_newlines (d # cs)"
      using False by simp
    then have "splitlines (universal_newlines (c # d # cs)) =
        (if is_linebreak c then [] # splitlines (d # cs)
         else (case splitlines (d # cs) of [] \<Rightarrow> [[c]] | l # ls \<Rightarrow> (c # l) # ls))"
      using splitlines_not_CR[OF False, of "universal_newlines (d # cs)"] ih by simp
    also have "\<dots> = splitlines (c # d # cs)"
      using splitlines_not_CR[OF False, of "d # cs"] by simp
    finally show ?thesis .
  qed
qed

text \<open>
  What \<open>splitlines\<close> and \<open>last100\<close> compute, said without them: a text of lines that
  each end in LF (or in any line end other than a CR alone), followed by a rest without a
  line end, has exactly these lines; and an element of the last hundred is an element at
  an index of at most 100 from the end.
\<close>

lemma splitlines_line_LF:
  "\<forall>c \<in> set l. \<not> is_linebreak c \<Longrightarrow> splitlines (l @ CHR 0x0A # xs) = l # splitlines xs"
proof (induction l)
  case Nil
  show ?case by (simp add: splitlines_linebreak LF_is_linebreak)
next
  case (Cons c l)
  then have nl: "\<not> is_linebreak c" and ih: "splitlines (l @ CHR 0x0A # xs) = l # splitlines xs"
    by simp_all
  from nl have "c \<noteq> CHR 0x0D" using CR_is_linebreak by auto
  from splitlines_not_CR[OF this, of "l @ CHR 0x0A # xs"] nl ih show ?case by simp
qed

lemma splitlines_no_linebreak:
  "\<forall>c \<in> set l. \<not> is_linebreak c \<Longrightarrow> l \<noteq> [] \<Longrightarrow> splitlines l = [l]"
proof (induction l)
  case Nil
  then show ?case by simp
next
  case (Cons c l)
  then have nl: "\<not> is_linebreak c" by simp
  then have ncr: "c \<noteq> CHR 0x0D" using CR_is_linebreak by auto
  show ?case
  proof (cases "l = []")
    case True
    with nl show ?thesis by simp
  next
    case False
    with Cons have "splitlines l = [l]" by simp
    with splitlines_not_CR[OF ncr, of l] nl show ?thesis by simp
  qed
qed

lemma splitlines_LF_lines:
  assumes "\<forall>l \<in> set ls. \<forall>c \<in> set l. \<not> is_linebreak c" and "\<forall>c \<in> set rest. \<not> is_linebreak c"
  shows "splitlines (concat (map (\<lambda>l. l @ [CHR 0x0A]) ls) @ rest) =
           ls @ (if rest = [] then [] else [rest])"
  using assms(1)
proof (induction ls)
  case Nil
  show ?case using assms(2) by (simp add: splitlines_no_linebreak)
next
  case (Cons l ls)
  then have "splitlines (l @ CHR 0x0A # (concat (map (\<lambda>l. l @ [CHR 0x0A]) ls) @ rest)) =
      l # splitlines (concat (map (\<lambda>l. l @ [CHR 0x0A]) ls) @ rest)"
    by (intro splitlines_line_LF) simp
  with Cons show ?case by simp
qed

lemma splitlines_line_end:
  assumes "\<forall>c \<in> set l. \<not> is_linebreak c"
    and "t \<in> set [[CHR 0x0A], [CHR 0x0B], [CHR 0x0C], [CHR 0x1C], [CHR 0x1D], [CHR 0x1E],
                   [CHR 0x85], [CHR 0x0D, CHR 0x0A]]"
  shows "splitlines (l @ t @ xs) = l # splitlines xs"
  using assms(1)
proof (induction l)
  case Nil
  from assms(2) show ?case
    by (auto simp: splitlines_linebreak is_linebreak_def)
next
  case (Cons c l)
  then have nl: "\<not> is_linebreak c" and ih: "splitlines (l @ t @ xs) = l # splitlines xs"
    by simp_all
  from nl have "c \<noteq> CHR 0x0D" using CR_is_linebreak by auto
  from splitlines_not_CR[OF this, of "l @ t @ xs"] nl ih show ?case by simp
qed

lemma splitlines_terminated_lines:
  assumes "\<forall>(l, t) \<in> set lts. (\<forall>c \<in> set l. \<not> is_linebreak c) \<and>
             t \<in> set [[CHR 0x0A], [CHR 0x0B], [CHR 0x0C], [CHR 0x1C], [CHR 0x1D], [CHR 0x1E],
                      [CHR 0x85], [CHR 0x0D, CHR 0x0A]]"
    and "\<forall>c \<in> set rest. \<not> is_linebreak c"
  shows "splitlines (concat (map (\<lambda>(l, t). l @ t) lts) @ rest) =
           map fst lts @ (if rest = [] then [] else [rest])"
  using assms(1)
proof (induction lts)
  case Nil
  show ?case using assms(2) by (simp add: splitlines_no_linebreak)
next
  case (Cons lt lts)
  obtain l t where lt: "lt = (l, t)" by (cases lt)
  with Cons.prems have "\<forall>c \<in> set l. \<not> is_linebreak c"
    and "t \<in> set [[CHR 0x0A], [CHR 0x0B], [CHR 0x0C], [CHR 0x1C], [CHR 0x1D], [CHR 0x1E],
                   [CHR 0x85], [CHR 0x0D, CHR 0x0A]]"
    by auto
  from splitlines_line_end[OF this, of "concat (map (\<lambda>(l, t). l @ t) lts) @ rest"]
  have "splitlines (l @ t @ concat (map (\<lambda>(l, t). l @ t) lts) @ rest) =
      l # splitlines (concat (map (\<lambda>(l, t). l @ t) lts) @ rest)" .
  with Cons lt show ?case by simp
qed

lemma last100_nth:
  "(\<exists>l \<in> set (last100 xs). P l) \<longleftrightarrow> (\<exists>i < length xs. length xs \<le> i + 100 \<and> P (xs ! i))"
proof
  assume "\<exists>l \<in> set (last100 xs). P l"
  then obtain j where j: "j < length (last100 xs)" and p: "P (last100 xs ! j)"
    by (auto simp: in_set_conv_nth)
  let ?i = "length xs - 100 + j"
  from j have "?i < length xs" by (simp add: last100_def)
  moreover have "length xs \<le> ?i + 100" by simp
  moreover from j p have "P (xs ! ?i)" by (simp add: last100_def)
  ultimately show "\<exists>i < length xs. length xs \<le> i + 100 \<and> P (xs ! i)" by blast
next
  assume "\<exists>i < length xs. length xs \<le> i + 100 \<and> P (xs ! i)"
  then obtain i where i: "i < length xs" "length xs \<le> i + 100" and p: "P (xs ! i)" by blast
  let ?j = "i - (length xs - 100)"
  from i have "?j < length (last100 xs)" by (simp add: last100_def)
  moreover from i have "last100 xs ! ?j = xs ! i" by (simp add: last100_def)
  ultimately show "\<exists>l \<in> set (last100 xs). P l" using p by (metis nth_mem)
qed

lemma scan_tail_iff:
  "scan_tail obsid ls \<longleftrightarrow> (\<exists>l \<in> set ls. finish_search l = Some obsid)"
  by (induction ls) (auto split: option.splits)

lemma set_last100: "set (last100 xs) \<subseteq> set xs"
  by (simp add: last100_def set_drop_subset)

lemma length_last100: "length (last100 xs) \<le> 100"
  by (simp add: last100_def)

text \<open>
  The search is sound and complete for the pattern: a result is a non-empty run of digits
  that follows the literal, the run is the longest one (\<open>finish_match_at_greedy\<close>), and the
  match is the one at the leftmost position that has a match (\<open>finish_search_leftmost\<close>).
\<close>

lemma finish_match_at_greedy:
  assumes "ds \<noteq> []" and "list_all is_digit ds" and "post = [] \<or> \<not> is_digit (hd post)"
  shows "finish_match_at (finish_literal @ ds @ post) = Some ds"
proof -
  have "takeWhile is_digit (ds @ post) = ds"
  proof (cases post)
    case Nil
    with assms(2) show ?thesis by (simp add: list_all_iff)
  next
    case (Cons c cs)
    with assms(3) have "\<not> is_digit c" by simp
    with Cons assms(2) show ?thesis by (simp add: list_all_iff takeWhile_tail)
  qed
  with assms(1) show ?thesis by (simp add: finish_match_at_def)
qed

lemma finish_search_leftmost:
  "finish_search s = Some ds \<longleftrightarrow>
     (\<exists>pre rest. s = pre @ rest \<and> finish_match_at rest = Some ds \<and>
        (\<forall>pre' rest'. s = pre' @ rest' \<and> length pre' < length pre \<longrightarrow>
           finish_match_at rest' = None))"
proof (induction s)
  case Nil
  show ?case by (simp add: finish_match_at_def finish_literal_def)
next
  case (Cons c cs)
  show ?case
  proof (cases "finish_match_at (c # cs)")
    case (Some a)
    show ?thesis
    proof
      assume "finish_search (c # cs) = Some ds"
      with Some have "finish_match_at (c # cs) = Some ds" by simp
      then have "c # cs = [] @ (c # cs) \<and> finish_match_at (c # cs) = Some ds \<and>
        (\<forall>pre' rest'. c # cs = pre' @ rest' \<and> length pre' < length ([]::string) \<longrightarrow>
           finish_match_at rest' = None)" by simp
      then show "\<exists>pre rest. c # cs = pre @ rest \<and> finish_match_at rest = Some ds \<and>
        (\<forall>pre' rest'. c # cs = pre' @ rest' \<and> length pre' < length pre \<longrightarrow>
           finish_match_at rest' = None)" by blast
    next
      assume "\<exists>pre rest. c # cs = pre @ rest \<and> finish_match_at rest = Some ds \<and>
        (\<forall>pre' rest'. c # cs = pre' @ rest' \<and> length pre' < length pre \<longrightarrow>
           finish_match_at rest' = None)"
      then obtain pre rest where e: "c # cs = pre @ rest" and m: "finish_match_at rest = Some ds"
        and l: "\<forall>pre' rest'. c # cs = pre' @ rest' \<and> length pre' < length pre \<longrightarrow>
           finish_match_at rest' = None" by blast
      have "pre = []"
      proof (rule ccontr)
        assume "pre \<noteq> []"
        then have "c # cs = [] @ (c # cs) \<and> length ([]::string) < length pre" by simp
        with l have "finish_match_at (c # cs) = None" by blast
        with Some show False by simp
      qed
      with e have "rest = c # cs" by simp
      with m show "finish_search (c # cs) = Some ds" by simp
    qed
  next
    case None
    show ?thesis
    proof
      assume "finish_search (c # cs) = Some ds"
      with None have "finish_search cs = Some ds" by simp
      with Cons.IH obtain pre rest where e: "cs = pre @ rest" and m: "finish_match_at rest = Some ds"
        and l: "\<forall>pre' rest'. cs = pre' @ rest' \<and> length pre' < length pre \<longrightarrow>
           finish_match_at rest' = None" by blast
      have "\<forall>pre' rest'. c # cs = pre' @ rest' \<and> length pre' < length (c # pre) \<longrightarrow>
           finish_match_at rest' = None"
      proof (intro allI impI)
        fix pre' rest' assume a: "c # cs = pre' @ rest' \<and> length pre' < length (c # pre)"
        show "finish_match_at rest' = None"
        proof (cases pre')
          case Nil
          with a None show ?thesis by simp
        next
          case (Cons x xs)
          with a have "cs = xs @ rest' \<and> length xs < length pre" by simp
          with l show ?thesis by blast
        qed
      qed
      moreover from e have "c # cs = (c # pre) @ rest" by simp
      ultimately show "\<exists>pre rest. c # cs = pre @ rest \<and> finish_match_at rest = Some ds \<and>
        (\<forall>pre' rest'. c # cs = pre' @ rest' \<and> length pre' < length pre \<longrightarrow>
           finish_match_at rest' = None)" using m by blast
    next
      assume "\<exists>pre rest. c # cs = pre @ rest \<and> finish_match_at rest = Some ds \<and>
        (\<forall>pre' rest'. c # cs = pre' @ rest' \<and> length pre' < length pre \<longrightarrow>
           finish_match_at rest' = None)"
      then obtain pre rest where e: "c # cs = pre @ rest" and m: "finish_match_at rest = Some ds"
        and l: "\<forall>pre' rest'. c # cs = pre' @ rest' \<and> length pre' < length pre \<longrightarrow>
           finish_match_at rest' = None" by blast
      from e m None obtain pre0 where p: "pre = c # pre0" and e0: "cs = pre0 @ rest"
        by (cases pre) auto
      have "\<forall>pre' rest'. cs = pre' @ rest' \<and> length pre' < length pre0 \<longrightarrow>
           finish_match_at rest' = None"
      proof (intro allI impI)
        fix pre' rest' assume a: "cs = pre' @ rest' \<and> length pre' < length pre0"
        then have "c # cs = (c # pre') @ rest' \<and> length (c # pre') < length pre"
          using p by simp
        with l show "finish_match_at rest' = None" by blast
      qed
      with e0 m Cons.IH have "finish_search cs = Some ds" by blast
      with None show "finish_search (c # cs) = Some ds" by simp
    qed
  qed
qed

text \<open>
  The shape of a line that the search accepts, and a shape that it always accepts: the
  literal, preceded by text without the letter \<open>F\<close>, followed by the digits and by no
  further digit.
\<close>

lemma finish_match_at_form:
  assumes "finish_match_at s = Some ds"
  shows "ds \<noteq> [] \<and> (\<forall>c \<in> set ds. is_digit c) \<and>
         (\<exists>post. s = finish_literal @ ds @ post \<and> (post = [] \<or> \<not> is_digit (hd post)))"
proof -
  from assms have p: "prefix finish_literal s"
    and d: "ds = takeWhile is_digit (drop (length finish_literal) s)" and ne: "ds \<noteq> []"
    by (auto simp: finish_match_at_def Let_def split: if_splits)
  from p obtain r where s: "s = finish_literal @ r" by (auto simp: prefix_def)
  with d have t: "ds = takeWhile is_digit r" by simp
  let ?post = "dropWhile is_digit r"
  have "r = ds @ ?post" by (simp add: t)
  with s have 1: "s = finish_literal @ ds @ ?post" by simp
  have 2: "?post = [] \<or> \<not> is_digit (hd ?post)" by (metis hd_dropWhile)
  have 3: "\<forall>c \<in> set ds. is_digit c" using t by (auto dest: set_takeWhileD)
  from ne 1 2 3 show ?thesis by blast
qed

lemma finish_search_form:
  assumes "finish_search line = Some ds"
  shows "ds \<noteq> [] \<and> (\<forall>c \<in> set ds. is_digit c) \<and>
         (\<exists>pre post. line = pre @ finish_literal @ ds @ post \<and>
                      (post = [] \<or> \<not> is_digit (hd post)))"
proof -
  from assms obtain pre rest where l: "line = pre @ rest" and m: "finish_match_at rest = Some ds"
    using finish_search_leftmost[of line ds] by blast
  from finish_match_at_form[OF m] l show ?thesis by blast
qed

lemma finish_match_at_not_F:
  "c \<noteq> CHR ''F'' \<Longrightarrow> finish_match_at (c # xs) = None"
  by (auto simp: finish_match_at_def finish_literal_def)

lemma finish_search_of_match:
  "finish_match_at s = Some ds \<Longrightarrow> finish_search s = Some ds"
  by (cases s) (auto simp: finish_match_at_def finish_literal_def)

lemma finish_search_found:
  assumes "ds \<noteq> []" and "list_all is_digit ds" and "post = [] \<or> \<not> is_digit (hd post)"
    and "CHR ''F'' \<notin> set pre"
  shows "finish_search (pre @ finish_literal @ ds @ post) = Some ds"
  using assms(4)
proof (induction pre)
  case Nil
  from finish_match_at_greedy[OF assms(1-3)] show ?case
    by (simp add: finish_search_of_match)
next
  case (Cons c pre)
  then have "c \<noteq> CHR ''F''" and ih: "finish_search (pre @ finish_literal @ ds @ post) = Some ds"
    by auto
  then show ?case by (simp add: finish_match_at_not_F)
qed

text \<open>The functions on concrete text.\<close>

lemma finish_search_examples:
  "finish_search ''12:00 Finished nupipeline for 80002092002 ok'' = Some ''80002092002''"
  "finish_search ''Finished nupipeline for 1234'' \<noteq> Some ''123''"
  "finish_search ''Finished nupipeline for obs'' = None"
  "finish_search ''Finished nupipeline for 1, Finished nupipeline for 2'' = Some ''1''"
  by code_simp+

lemma splitlines_examples:
  "splitlines [] = []"
  "splitlines (''a'' @ [CHR 0x0A]) = [''a'']"
  "splitlines (''a'' @ [CHR 0x0D, CHR 0x0A] @ ''b'' @ [CHR 0x0A, CHR 0x0A] @ ''c'') =
     [''a'', ''b'', [], ''c'']"
  by code_simp+

lemma outdir2_example: "outdir2 task_demo = outdir_demo"
  by code_simp

lemma fmt_03d_examples:
  "fmt_03d 5 = ''005''" "fmt_03d (- 5) = ''-05''" "fmt_03d 1234 = ''1234''" "str_int (- 12) = ''-12''"
  by code_simp+

section \<open>Facts about the stage-1 planner\<close>

lemma needs_rerun1_iff:
  "\<not> needs_rerun1 fs cfg obsid \<longleftrightarrow>
     (\<exists>text. fs (log_path1 cfg obsid) = File text \<and>
        (\<exists>l \<in> set (last100 (splitlines text)). finish_search l = Some obsid))"
  by (auto simp: needs_rerun1_def is_file_def read_text_def scan_tail_iff
        splitlines_universal_newlines split: node.splits)

lemma needs_rerun1_cong:
  "fs' (log_path1 cfg obsid) = fs (log_path1 cfg obsid) \<Longrightarrow>
     needs_rerun1 fs' cfg obsid = needs_rerun1 fs cfg obsid"
  by (simp add: needs_rerun1_def is_file_def read_text_def)

lemma outdir1_prefix_iff: "prefix (outdir1 cfg x) (outdir1 cfg y @ r) \<longleftrightarrow> x = y"
  by (auto simp: outdir1_def)

lemma outdir1_prefix_iff2: "prefix (outdir1 cfg x) (outdir1 cfg y) \<longleftrightarrow> x = y"
  using outdir1_prefix_iff[of cfg x y "[]"] by simp

lemma outdir1_prefix_log: "prefix (outdir1 cfg x) (log_path1 cfg y) \<longleftrightarrow> x = y"
  unfolding log_path1_def by (rule outdir1_prefix_iff)

lemma needs_rerun1_rmtree:
  assumes "needs_rerun1 fs cfg x"
  shows "needs_rerun1 (rmtree (outdir1 cfg x) fs) cfg y = needs_rerun1 fs cfg y"
proof (cases "x = y")
  case True
  have "rmtree (outdir1 cfg x) fs (log_path1 cfg x) = Absent"
    by (simp add: rmtree_def outdir1_prefix_log)
  then have "needs_rerun1 (rmtree (outdir1 cfg x) fs) cfg x"
    by (simp add: needs_rerun1_def is_file_def)
  with assms True show ?thesis by simp
next
  case False
  then have "rmtree (outdir1 cfg x) fs (log_path1 cfg y) = fs (log_path1 cfg y)"
    by (simp add: rmtree_def outdir1_prefix_log)
  then show ?thesis by (rule needs_rerun1_cong)
qed

lemma plan1_worklist:
  "fst (snd (plan1 cfg fs obsids)) = filter (needs_rerun1 fs cfg) obsids"
proof (induction obsids arbitrary: fs)
  case Nil
  show ?case by simp
next
  case (Cons obs rest)
  show ?case
  proof (cases "needs_rerun1 fs cfg obs")
    case True
    let ?fs1 = "if is_dir fs (outdir1 cfg obs) then rmtree (outdir1 cfg obs) fs else fs"
    have same: "needs_rerun1 ?fs1 cfg = needs_rerun1 fs cfg"
      using True by (auto simp: needs_rerun1_rmtree)
    have "fst (snd (plan1 cfg fs (obs # rest))) = obs # fst (snd (plan1 cfg ?fs1 rest))"
      using True by (simp add: Let_def split: prod.splits)
    also have "\<dots> = obs # filter (needs_rerun1 fs cfg) rest"
      using Cons.IH[of ?fs1] same by simp
    finally show ?thesis using True by simp
  next
    case False
    then have "fst (snd (plan1 cfg fs (obs # rest))) = fst (snd (plan1 cfg fs rest))"
      by (simp add: Let_def split: prod.splits)
    with Cons.IH[of fs] False show ?thesis by simp
  qed
qed

lemma plan1_files:
  "fst (plan1 cfg fs obsids) q =
     (if \<exists>obs \<in> set obsids. needs_rerun1 fs cfg obs \<and> is_dir fs (outdir1 cfg obs) \<and>
                              prefix (outdir1 cfg obs) q
      then Absent else fs q)"
proof (induction obsids arbitrary: fs)
  case Nil
  show ?case by simp
next
  case (Cons obs rest)
  show ?case
  proof (cases "needs_rerun1 fs cfg obs \<and> is_dir fs (outdir1 cfg obs)")
    case True
    let ?fs1 = "rmtree (outdir1 cfg obs) fs"
    have same: "needs_rerun1 ?fs1 cfg = needs_rerun1 fs cfg"
      using True by (auto simp: needs_rerun1_rmtree)
    have dirs: "is_dir ?fs1 (outdir1 cfg y) \<longleftrightarrow> is_dir fs (outdir1 cfg y) \<and> y \<noteq> obs" for y
      by (auto simp: is_dir_def rmtree_def outdir1_prefix_iff2)
    have "fst (plan1 cfg fs (obs # rest)) q = fst (plan1 cfg ?fs1 rest) q"
      using True by (simp add: Let_def split: prod.splits)
    also have "\<dots> = (if \<exists>y \<in> set rest. needs_rerun1 ?fs1 cfg y \<and> is_dir ?fs1 (outdir1 cfg y) \<and>
                              prefix (outdir1 cfg y) q then Absent else ?fs1 q)"
      by (rule Cons.IH)
    also have "\<dots> = (if \<exists>y \<in> set (obs # rest). needs_rerun1 fs cfg y \<and> is_dir fs (outdir1 cfg y) \<and>
                              prefix (outdir1 cfg y) q then Absent else fs q)"
    proof -
      have fq: "?fs1 q = (if prefix (outdir1 cfg obs) q then Absent else fs q)"
        by (simp add: rmtree_def)
      show ?thesis unfolding same dirs fq using True by auto
    qed
    finally show ?thesis .
  next
    case False
    have "fst (plan1 cfg fs (obs # rest)) q = fst (plan1 cfg fs rest) q"
      using False by (auto simp: Let_def split: prod.splits)
    with Cons.IH[of fs] False show ?thesis by auto
  qed
qed

lemma plan1_queued:
  "Queued obs \<in> set (snd (snd (plan1 cfg fs obsids))) \<longleftrightarrow>
     obs \<in> set obsids \<and> needs_rerun1 fs cfg obs"
proof (induction obsids arbitrary: fs)
  case Nil
  show ?case by simp
next
  case (Cons x rest)
  show ?case
  proof (cases "needs_rerun1 fs cfg x")
    case True
    let ?fs1 = "if is_dir fs (outdir1 cfg x) then rmtree (outdir1 cfg x) fs else fs"
    have same: "needs_rerun1 ?fs1 cfg = needs_rerun1 fs cfg"
      using True by (auto simp: needs_rerun1_rmtree)
    from True Cons.IH[of ?fs1] show ?thesis
      by (auto simp: Let_def same split: prod.splits)
  next
    case False
    with Cons.IH[of fs] show ?thesis
      by (auto simp: Let_def split: prod.splits)
  qed
qed

lemma plan1_skipped:
  "Skipped obs \<in> set (snd (snd (plan1 cfg fs obsids))) \<longleftrightarrow>
     obs \<in> set obsids \<and> \<not> needs_rerun1 fs cfg obs"
proof (induction obsids arbitrary: fs)
  case Nil
  show ?case by simp
next
  case (Cons x rest)
  show ?case
  proof (cases "needs_rerun1 fs cfg x")
    case True
    let ?fs1 = "if is_dir fs (outdir1 cfg x) then rmtree (outdir1 cfg x) fs else fs"
    have same: "needs_rerun1 ?fs1 cfg = needs_rerun1 fs cfg"
      using True by (auto simp: needs_rerun1_rmtree)
    from True Cons.IH[of ?fs1] show ?thesis
      by (auto simp: Let_def same split: prod.splits)
  next
    case False
    with Cons.IH[of fs] show ?thesis
      by (auto simp: Let_def split: prod.splits)
  qed
qed

lemma plan1_wipe_then_queue:
  assumes "obs \<in> set obsids" "needs_rerun1 fs cfg obs" "is_dir fs (outdir1 cfg obs)"
  shows "\<exists>before after. snd (snd (plan1 cfg fs obsids)) =
            before @ [Wiped (outdir1 cfg obs), Queued obs] @ after \<and>
            Queued obs \<notin> set before"
  using assms
proof (induction obsids arbitrary: fs)
  case Nil
  then show ?case by simp
next
  case (Cons x rest)
  show ?case
  proof (cases "x = obs")
    case True
    with Cons.prems have
      "snd (snd (plan1 cfg fs (x # rest))) =
         [] @ [Wiped (outdir1 cfg obs), Queued obs] @
           snd (snd (plan1 cfg (rmtree (outdir1 cfg obs) fs) rest))"
      by (simp add: Let_def split: prod.splits)
    then show ?thesis by (metis empty_iff list.set(1))
  next
    case False
    with Cons.prems have mem: "obs \<in> set rest" by simp
    show ?thesis
    proof (cases "needs_rerun1 fs cfg x")
      case nr: True
      let ?fs1 = "if is_dir fs (outdir1 cfg x) then rmtree (outdir1 cfg x) fs else fs"
      let ?head = "(if is_dir fs (outdir1 cfg x) then [Wiped (outdir1 cfg x)] else []) @ [Queued x]"
      have same: "needs_rerun1 ?fs1 cfg obs"
        using nr Cons.prems(2) by (auto simp: needs_rerun1_rmtree)
      have dir: "is_dir ?fs1 (outdir1 cfg obs)"
        using Cons.prems(3) False by (auto simp: is_dir_def rmtree_def outdir1_prefix_iff2)
      from Cons.IH[OF mem same dir] obtain before after where
        ev: "snd (snd (plan1 cfg ?fs1 rest)) =
               before @ [Wiped (outdir1 cfg obs), Queued obs] @ after"
        and nb: "Queued obs \<notin> set before" by blast
      have "snd (snd (plan1 cfg fs (x # rest))) = ?head @ snd (snd (plan1 cfg ?fs1 rest))"
        using nr by (simp add: Let_def split: prod.splits)
      with ev have "snd (snd (plan1 cfg fs (x # rest))) =
           (?head @ before) @ [Wiped (outdir1 cfg obs), Queued obs] @ after" by simp
      moreover have "Queued obs \<notin> set (?head @ before)" using nb False by auto
      ultimately show ?thesis by blast
    next
      case nr: False
      from Cons.IH[OF mem Cons.prems(2) Cons.prems(3)] obtain before after where
        ev: "snd (snd (plan1 cfg fs rest)) =
               before @ [Wiped (outdir1 cfg obs), Queued obs] @ after"
        and nb: "Queued obs \<notin> set before" by blast
      have "snd (snd (plan1 cfg fs (x # rest))) = Skipped x # snd (snd (plan1 cfg fs rest))"
        using nr by (simp add: Let_def split: prod.splits)
      with ev have "snd (snd (plan1 cfg fs (x # rest))) =
           (Skipped x # before) @ [Wiped (outdir1 cfg obs), Queued obs] @ after" by simp
      moreover have "Queued obs \<notin> set (Skipped x # before)" using nb by auto
      ultimately show ?thesis by blast
    qed
  qed
qed

section \<open>Facts about the dispatch loops\<close>

lemma collect2_reports: "fst (collect2 xs) = map report2_of xs"
  by (induction xs rule: collect2.induct) (auto simp: Let_def split: prod.splits)

lemma collect2_failures: "snd (collect2 xs) = concat (map failure_of xs)"
  by (induction xs rule: collect2.induct) (auto simp: Let_def split: prod.splits)

lemma failure_of_Nil_iff:
  "failure_of (t, f) = [] \<longleftrightarrow> (\<exists>oid detd combd. f = Value (oid, detd, combd, 0))"
  by (cases "(t, f)" rule: failure_of.cases) auto

lemma mset_map_all_complete:
  "all_complete order units \<Longrightarrow> mset (map f order) = mset (map f [0..<length units])"
  unfolding all_complete_def by (metis mset_map)

lemma set_all_complete: "all_complete order units \<Longrightarrow> set order = {0..<length units}"
  by (metis all_complete_def set_mset_mset set_upt)

lemma snd_dispatch1_Value:
  "snd (dispatch1 ((obs, Value v) # rest)) = snd (dispatch1 rest)"
  by (cases v) (simp add: Let_def split_beta)

lemma dispatch1_values:
  "dispatch1 (map (\<lambda>i. (units ! i, Value (ids i, rcs i))) order) =
     (map (\<lambda>i. if rcs i \<noteq> 0 then ExitedWithCode (units ! i) (rcs i) else FinishedOK (units ! i)) order,
      None)"
  by (induction order) (auto simp: Let_def)

lemma dispatch1_no_raise:
  "\<forall>x \<in> set xs. \<exists>v. snd x = Value v \<Longrightarrow> snd (dispatch1 xs) = None \<and> length (fst (dispatch1 xs)) = length xs"
  by (induction xs rule: dispatch1.induct) (auto simp: Let_def split: prod.splits)

lemma dispatch1_raise:
  "snd (dispatch1 xs) = Some e \<longleftrightarrow>
     (\<exists>pre obs post. xs = pre @ (obs, Raises e) # post \<and> (\<forall>x \<in> set pre. \<exists>v. snd x = Value v))"
proof (induction xs rule: dispatch1.induct)
  case 1
  show ?case by simp
next
  case (2 obs e' rest)
  show ?case
  proof
    assume "snd (dispatch1 ((obs, Raises e') # rest)) = Some e"
    then have "e' = e" by simp
    then have "(obs, Raises e') # rest = [] @ (obs, Raises e) # rest" by simp
    then show "\<exists>pre obs' post. (obs, Raises e') # rest = pre @ (obs', Raises e) # post \<and>
        (\<forall>x \<in> set pre. \<exists>v. snd x = Value v)"
      by (metis empty_iff list.set(1))
  next
    assume "\<exists>pre obs' post. (obs, Raises e') # rest = pre @ (obs', Raises e) # post \<and>
        (\<forall>x \<in> set pre. \<exists>v. snd x = Value v)"
    then obtain pre obs' post where
      eq: "(obs, Raises e') # rest = pre @ (obs', Raises e) # post"
      and vs: "\<forall>x \<in> set pre. \<exists>v. snd x = Value v" by blast
    have "pre = []"
    proof (cases pre)
      case Nil then show ?thesis .
    next
      case (Cons a pre')
      with eq have "a = (obs, Raises e')" by simp
      with vs Cons show ?thesis by auto
    qed
    with eq show "snd (dispatch1 ((obs, Raises e') # rest)) = Some e" by simp
  qed
next
  case (3 obs obsid rc rest)
  show ?case
  proof
    assume "snd (dispatch1 ((obs, Value (obsid, rc)) # rest)) = Some e"
    then have "snd (dispatch1 rest) = Some e" by (simp add: split_beta)
    with 3 obtain pre obs' post where
      "rest = pre @ (obs', Raises e) # post" "\<forall>x \<in> set pre. \<exists>v. snd x = Value v" by blast
    then have "(obs, Value (obsid, rc)) # rest = ((obs, Value (obsid, rc)) # pre) @ (obs', Raises e) # post
       \<and> (\<forall>x \<in> set ((obs, Value (obsid, rc)) # pre). \<exists>v. snd x = Value v)" by simp
    then show "\<exists>pre obs' post. (obs, Value (obsid, rc)) # rest = pre @ (obs', Raises e) # post \<and>
        (\<forall>x \<in> set pre. \<exists>v. snd x = Value v)" by blast
  next
    assume "\<exists>pre obs' post. (obs, Value (obsid, rc)) # rest = pre @ (obs', Raises e) # post \<and>
        (\<forall>x \<in> set pre. \<exists>v. snd x = Value v)"
    then obtain pre obs' post where
      eq: "(obs, Value (obsid, rc)) # rest = pre @ (obs', Raises e) # post"
      and vs: "\<forall>x \<in> set pre. \<exists>v. snd x = Value v" by blast
    from eq obtain pre' where "pre = (obs, Value (obsid, rc)) # pre'"
      by (cases pre) auto
    with eq vs have "rest = pre' @ (obs', Raises e) # post" "\<forall>x \<in> set pre'. \<exists>v. snd x = Value v"
      by auto
    with 3 have "snd (dispatch1 rest) = Some e" by blast
    then show "snd (dispatch1 ((obs, Value (obsid, rc)) # rest)) = Some e"
      by (simp add: split_beta)
  qed
qed

lemma dispatch1_reports_until_raise:
  "(\<forall>x \<in> set pre. \<exists>v. snd x = Value v) \<Longrightarrow>
     length (fst (dispatch1 (pre @ (obs, Raises e) # post))) = length pre"
  by (induction pre rule: dispatch1.induct) (auto simp: Let_def split: prod.splits)

section \<open>Facts about the stage-2 launcher\<close>

lemma mkdir_p_Dir: "fs p = Dir \<Longrightarrow> mkdir_p fs p = Inr fs"
  by (simp add: mkdir_p.simps)

lemma mkdir_p_frame:
  "mkdir_p fs p = Inr fs1 \<Longrightarrow>
     fs1 p = Dir \<and> (\<forall>q. fs1 q \<noteq> fs q \<longrightarrow> fs q = Absent \<and> fs1 q = Dir \<and> prefix q p)"
proof (induction fs p arbitrary: fs1 rule: mkdir_p.induct)
  case (1 fs p)
  show ?case
  proof (cases "fs p")
    case Absent
    with "1.prems" have ne: "p \<noteq> []"
      by (auto simp: mkdir_p.simps[of fs p] split: if_splits)
    with Absent "1.prems" obtain fs0 where
      up: "mkdir_p fs (butlast p) = Inr fs0" and eq: "fs1 = fs0(p := Dir)"
      by (auto simp: mkdir_p.simps[of fs p] split: sum.splits)
    from "1.IH"[OF Absent ne up] have
      fr: "\<forall>q. fs0 q \<noteq> fs q \<longrightarrow> fs q = Absent \<and> fs0 q = Dir \<and> prefix q (butlast p)" by blast
    have "prefix (butlast p) p" by (simp add: prefixeq_butlast)
    with fr have "\<forall>q. fs0 q \<noteq> fs q \<longrightarrow> fs q = Absent \<and> fs0 q = Dir \<and> prefix q p"
      by (meson prefix_order.trans)
    with eq Absent show ?thesis by auto
  next
    case Dir
    with "1.prems" show ?thesis by (simp add: mkdir_p.simps[of fs p])
  next
    case (File s)
    with "1.prems" show ?thesis by (simp add: mkdir_p.simps[of fs p])
  next
    case Unreadable
    with "1.prems" show ?thesis by (simp add: mkdir_p.simps[of fs p])
  qed
qed

lemma log_path2_neq [simp]: "log_path2 d \<noteq> d" "d \<noteq> log_path2 d"
  by (simp_all add: log_path2_def)

lemma log_not_prefix [simp]: "\<not> prefix (log_path2 d) d"
  by (auto simp: log_path2_def prefix_def)

lemma mkdir_p_keeps_log:
  "mkdir_p fs d = Inr fs1 \<Longrightarrow> fs1 (log_path2 d) = fs (log_path2 d)"
  using mkdir_p_frame[of fs d fs1] log_not_prefix[of d] by metis

lemma needs_rerun2_cong:
  "fs1 (log_path2 d) = fs (log_path2 d) \<Longrightarrow> needs_rerun2 fs1 d = needs_rerun2 fs d"
  by (simp add: needs_rerun2_def exists_path_def read_text_def)

lemma append_text_File:
  "fs p = File s \<Longrightarrow> append_text fs p text = Inr (fs(p := File (s @ text)))"
  by (simp add: append_text_def)

lemma fin_scan_after_text: "fin_scan b (out @ marker_line)"
proof (induction out arbitrary: b)
  case Nil
  show ?case by (simp add: marker_line_def fin_literal_def)
next
  case (Cons c cs)
  then show ?case by simp
qed

lemma marker_line_found: "fin_search (out @ marker_line)"
  by (simp add: fin_search_def fin_scan_after_text)

text \<open>A log that ends in the marker line is found complete when it is read back.\<close>

lemma universal_newlines_append_LF:
  "\<exists>pre. universal_newlines (out @ CHR 0x0A # rest) = pre @ CHR 0x0A # universal_newlines rest"
proof (induction out rule: universal_newlines.induct)
  case 1
  have "universal_newlines (CHR 0x0A # rest) = [] @ CHR 0x0A # universal_newlines rest"
    by (cases rest) auto
  then show ?case by (metis append_Nil)
next
  case (2 c)
  show ?case
  proof (cases "c = CHR 0x0D")
    case True
    then have "universal_newlines ([c] @ CHR 0x0A # rest) = [] @ CHR 0x0A # universal_newlines rest"
      by simp
    then show ?thesis by blast
  next
    case False
    have "universal_newlines (CHR 0x0A # rest) = CHR 0x0A # universal_newlines rest"
      by (cases rest) auto
    with False have "universal_newlines ([c] @ CHR 0x0A # rest) = [c] @ CHR 0x0A # universal_newlines rest"
      by simp
    then show ?thesis by blast
  qed
next
  case (3 c d cs)
  show ?case
  proof (cases "c = CHR 0x0D \<and> d = CHR 0x0A")
    case True
    with 3 obtain pre where "universal_newlines (cs @ CHR 0x0A # rest) = pre @ CHR 0x0A # universal_newlines rest"
      by blast
    with True have "universal_newlines ((c # d # cs) @ CHR 0x0A # rest) =
        (CHR 0x0A # pre) @ CHR 0x0A # universal_newlines rest" by simp
    then show ?thesis by blast
  next
    case False
    with 3 obtain pre where p: "universal_newlines ((d # cs) @ CHR 0x0A # rest) = pre @ CHR 0x0A # universal_newlines rest"
      by blast
    from False have "universal_newlines ((c # d # cs) @ CHR 0x0A # rest) =
        (if c = CHR 0x0D then CHR 0x0A else c) # universal_newlines ((d # cs) @ CHR 0x0A # rest)"
      by auto
    with p have "universal_newlines ((c # d # cs) @ CHR 0x0A # rest) =
        ((if c = CHR 0x0D then CHR 0x0A else c) # pre) @ CHR 0x0A # universal_newlines rest"
      by simp
    then show ?thesis by blast
  qed
qed

lemma marker_line_found_after_read: "fin_search (universal_newlines (out @ marker_line))"
proof -
  have m: "marker_line = CHR 0x0A # fin_literal @ [CHR 0x0A]"
    by (simp add: marker_line_def fin_literal_def)
  have u: "universal_newlines (fin_literal @ [CHR 0x0A]) = fin_literal @ [CHR 0x0A]"
    by (simp add: fin_literal_def)
  from universal_newlines_append_LF[of out "fin_literal @ [CHR 0x0A]"] obtain pre where
    "universal_newlines (out @ marker_line) = pre @ marker_line"
    unfolding m u by blast
  then show ?thesis by (simp add: fin_search_def fin_scan_after_text)
qed

lemma launch_mkdir_fails:
  "mkdir_p fs (outdir2 t) = Inl e \<Longrightarrow> launch tool fs t = (fs, [], Raises e)"
  by (cases t) (simp add: launch_def)

lemma launch_complete:
  assumes "mkdir_p fs (outdir2 (obsid, det, cfg, comb)) = Inr fs1"
    and "needs_rerun2 fs1 (outdir2 (obsid, det, cfg, comb)) = Inr False"
  shows "launch tool fs (obsid, det, cfg, comb) =
           (fs1, [MadeDir (outdir2 (obsid, det, cfg, comb)),
                  Checked (log_path2 (outdir2 (obsid, det, cfg, comb)))],
            Value (obsid, det, comb, 0))"
  using assms by (simp add: launch_def Let_def)

lemma launch_check_raises:
  assumes "mkdir_p fs (outdir2 t) = Inr fs1" and "needs_rerun2 fs1 (outdir2 t) = Inl e"
  shows "launch tool fs t =
           (fs1, [MadeDir (outdir2 t), Checked (log_path2 (outdir2 t))], Raises e)"
  using assms by (cases t) (simp add: launch_def Let_def)

lemma launch_called:
  assumes "launch tool fs t = (fs', events, result)" and "CallReturned rc \<in> set events"
  shows "\<exists>fs2 out. tool t = Exits rc out \<and>
           events = [MadeDir (outdir2 t), Checked (log_path2 (outdir2 t)),
                     OpenedLog (log_path2 (outdir2 t)), CallReturned rc] @
                    (if rc = 0 then [MarkerAppended (log_path2 (outdir2 t))] else []) \<and>
           fs' = fs2(log_path2 (outdir2 t) := File (if rc = 0 then out @ marker_line else out))"
proof -
  obtain obsid det cfg comb where t: "t = (obsid, det, cfg, comb)" by (cases t) auto
  let ?d = "outdir2 t" and ?l = "log_path2 (outdir2 t)"
  from assms obtain fs1 where m: "mkdir_p fs ?d = Inr fs1"
    by (cases "mkdir_p fs ?d") (auto simp: launch_def Let_def t)
  from assms m have n: "needs_rerun2 fs1 ?d = Inr True"
    by (cases "needs_rerun2 fs1 ?d") (auto simp: launch_def Let_def t split: bool.splits)
  from assms m n obtain fs2 where ow: "open_w fs1 ?l = Inr fs2"
    by (cases "open_w fs1 ?l") (auto simp: launch_def Let_def t)
  from assms m n ow obtain rc' out where tl: "tool t = Exits rc' out"
    by (cases "tool t") (auto simp: launch_def Let_def t)
  have ap: "append_text (fs2(?l := File out)) ?l marker_line =
              Inr (fs2(?l := File (out @ marker_line)))"
    by (simp add: append_text_def)
  from assms m n ow tl ap have "rc' = rc"
    by (auto simp: launch_def Let_def t split: if_splits)
  with assms m n ow tl ap show ?thesis
    by (auto simp: launch_def Let_def t split: if_splits)
qed

lemma launch_marker_needs_zero_exit:
  assumes "launch tool fs t = (fs', events, result)" and "MarkerAppended p \<in> set events"
  shows "CallReturned 0 \<in> set events \<and> p = log_path2 (outdir2 t)"
proof -
  obtain obsid det cfg comb where t: "t = (obsid, det, cfg, comb)" by (cases t) auto
  from assms show ?thesis
    by (auto simp: launch_def Let_def t
             split: sum.splits bool.splits tool_result.splits if_splits)
qed

lemma launch_keeps_outdir:
  assumes "mkdir_p fs (outdir2 t) = Inr fs1" and "launch tool fs t = (fs', events, result)"
  shows "fs' (outdir2 t) = Dir"
proof -
  obtain obsid det cfg comb where t: "t = (obsid, det, cfg, comb)" by (cases t) auto
  from mkdir_p_frame[OF assms(1)] have d: "fs1 (outdir2 t) = Dir" by blast
  have ow: "open_w fs1 p = Inr fs2 \<Longrightarrow> fs2 = fs1(p := File [])" for p fs2
    by (auto simp: open_w_def split: node.splits if_splits)
  from assms d show ?thesis
    by (auto simp: launch_def Let_def t append_text_def dest!: ow
             split: sum.splits bool.splits tool_result.splits if_splits)
qed

lemma launch_events_start:
  assumes "mkdir_p fs (outdir2 t) = Inr fs1" and "launch tool fs t = (fs', events, result)"
  shows "\<exists>rest. events = MadeDir (outdir2 t) # Checked (log_path2 (outdir2 t)) # rest \<and>
           MadeDir (outdir2 t) \<notin> set rest \<and> Checked (log_path2 (outdir2 t)) \<notin> set rest"
proof -
  obtain obsid det cfg comb where t: "t = (obsid, det, cfg, comb)" by (cases t) auto
  from assms show ?thesis
    by (auto simp: launch_def Let_def t
             split: sum.splits bool.splits tool_result.splits if_splits)
qed

lemma launch_spawn_fails:
  assumes "mkdir_p fs (outdir2 t) = Inr fs1" and "needs_rerun2 fs1 (outdir2 t) = Inr True"
    and "tool t = CannotSpawn"
  shows "snd (snd (launch tool fs t)) = Raises SpawnError"
proof -
  obtain obsid det cfg comb where t: "t = (obsid, det, cfg, comb)" by (cases t) auto
  let ?l = "log_path2 (outdir2 t)"
  from mkdir_p_frame[OF assms(1)] have d: "fs1 (outdir2 t) = Dir" by blast
  from assms(2) have "fs1 ?l \<noteq> Dir \<and> fs1 ?l \<noteq> Unreadable"
    by (auto simp: needs_rerun2_def exists_path_def read_text_def split: if_splits node.splits)
  then have "open_w fs1 ?l = Inr (fs1(?l := File []))"
    using d by (cases "fs1 ?l") (auto simp: open_w_def log_path2_def)
  with assms show ?thesis by (simp add: launch_def Let_def t)
qed

text \<open>
  On a file system in which every node lies in a directory, a successful \<open>mkdir\<close> leaves
  a directory at every ancestor of the path; and the launcher writes to the log alone.
\<close>

lemma wellformed_ancestors:
  assumes wf: "\<forall>q. q \<noteq> [] \<and> fs q \<noteq> Absent \<longrightarrow> fs (butlast q) = Dir"
  shows "fs p \<noteq> Absent \<Longrightarrow> prefix q p \<Longrightarrow> q \<noteq> p \<Longrightarrow> fs q = Dir"
proof (induction p rule: rev_induct)
  case Nil
  then show ?case by simp
next
  case (snoc x xs)
  from wf snoc.prems(1) have d: "fs xs = Dir" by (metis butlast_snoc snoc_eq_iff_butlast)
  from snoc.prems(2,3) have "prefix q xs" by (auto simp: prefix_snoc)
  show ?case
  proof (cases "q = xs")
    case True
    with d show ?thesis by simp
  next
    case False
    from d have "fs xs \<noteq> Absent" by simp
    from snoc.IH[OF this \<open>prefix q xs\<close> False] show ?thesis .
  qed
qed

lemma mkdir_p_parents:
  assumes wf: "\<forall>q. q \<noteq> [] \<and> fs q \<noteq> Absent \<longrightarrow> fs (butlast q) = Dir"
  shows "mkdir_p fs p = Inr fs1 \<Longrightarrow> prefix q p \<Longrightarrow> fs1 q = Dir"
proof (induction p arbitrary: fs1 q rule: rev_induct)
  case Nil
  then show ?case by (auto simp: mkdir_p.simps[of fs "[]"] split: node.splits)
next
  case (snoc x xs)
  let ?p = "xs @ [x]"
  show ?case
  proof (cases "fs ?p")
    case Absent
    with snoc.prems(1) obtain fs0 where
      up: "mkdir_p fs xs = Inr fs0" and eq: "fs1 = fs0(?p := Dir)"
      by (auto simp: mkdir_p.simps[of fs ?p] split: sum.splits)
    show ?thesis
    proof (cases "q = ?p")
      case True
      with eq show ?thesis by simp
    next
      case False
      with snoc.prems(2) have "prefix q xs" by (auto simp: prefix_snoc)
      from snoc.IH[OF up this] False eq show ?thesis by simp
    qed
  next
    case Dir
    with snoc.prems(1) have same: "fs1 = fs" by (simp add: mkdir_p.simps[of fs ?p])
    show ?thesis
    proof (cases "q = ?p")
      case True
      with Dir same show ?thesis by simp
    next
      case False
      from Dir have "fs ?p \<noteq> Absent" by simp
      from wellformed_ancestors[OF wf this snoc.prems(2) False] same show ?thesis by simp
    qed
  next
    case (File s)
    with snoc.prems(1) show ?thesis by (simp add: mkdir_p.simps[of fs ?p])
  next
    case Unreadable
    with snoc.prems(1) show ?thesis by (simp add: mkdir_p.simps[of fs ?p])
  qed
qed

lemma launch_frame:
  assumes "mkdir_p fs (outdir2 t) = Inr fs1" and "launch tool fs t = (fs', events, result)"
    and "q \<noteq> log_path2 (outdir2 t)"
  shows "fs' q = fs1 q"
proof -
  obtain obsid det cfg comb where t: "t = (obsid, det, cfg, comb)" by (cases t) auto
  have ow: "open_w fs1 p = Inr fs2 \<Longrightarrow> fs2 = fs1(p := File [])" for p fs2
    by (auto simp: open_w_def split: node.splits if_splits)
  from assms show ?thesis
    by (auto simp: launch_def Let_def t append_text_def dest!: ow
             split: sum.splits bool.splits tool_result.splits if_splits)
qed

section \<open>Facts about the checks when access is refused\<close>

lemma needs_rerun1_io_granted:
  "\<not> denied (log_path1 cfg obsid) \<Longrightarrow>
     needs_rerun1_io denied fs cfg obsid = Inr (needs_rerun1 fs cfg obsid)"
  by (auto simp: needs_rerun1_io_def needs_rerun1_def is_file_io_def read_text_io_def
           split: sum.splits bool.splits)

lemma needs_rerun2_io_granted:
  "\<not> denied (log_path2 outdir) \<Longrightarrow> needs_rerun2_io denied fs outdir = needs_rerun2 fs outdir"
  by (auto simp: needs_rerun2_io_def needs_rerun2_def exists_io_def read_text_io_def
           split: sum.splits bool.splits)

lemma needs_rerun1_io_test_raises:
  "denied (log_path1 cfg obsid) \<Longrightarrow> needs_rerun1_io denied fs cfg obsid = Inl OSError"
  by (simp add: needs_rerun1_io_def is_file_io_def)

lemma needs_rerun2_io_test_raises:
  "denied (log_path2 outdir) \<Longrightarrow> needs_rerun2_io denied fs outdir = Inl OSError"
  by (simp add: needs_rerun2_io_def exists_io_def)

section \<open>Facts about the two drivers\<close>

lemma main1_dispatched:
  assumes "submitted_of (main1 w p j order res) \<noteq> []"
  shows "\<exists>cfg fs2 wl ev.
           config1 w p = Loaded cfg \<and> plan1 cfg (files1 w) (observations cfg) = (fs2, wl, ev) \<and>
           main1 w p j order res =
             \<lparr>ending_of = (case snd (dispatch1 (as_completed order wl res)) of
                             None \<Rightarrow> Returns | Some e \<Rightarrow> Uncaught e),
              files_of = fs2, plan_events_of = ev, submitted_of = wl,
              reports_of = fst (dispatch1 (as_completed order wl res))\<rparr>"
  using assms
  by (auto simp: main1_def stopped1_def Let_def
           split: config_file.splits sum.splits prod.splits if_splits)

lemma main1_planned:
  assumes "config1 w p = Loaded cfg" and "environ1 w ''HEADAS'' \<noteq> None"
    and "environ1 w ''CALDB'' \<noteq> None" and "resolve_workers (cpu_count1 w) j = Inr n" and "0 < n"
  shows "submitted_of (main1 w p j order res) = fst (snd (plan1 cfg (files1 w) (observations cfg)))
       \<and> plan_events_of (main1 w p j order res) = snd (snd (plan1 cfg (files1 w) (observations cfg)))
       \<and> files_of (main1 w p j order res) = fst (plan1 cfg (files1 w) (observations cfg))"
  using assms by (auto simp: main1_def Let_def split: prod.splits)

lemma main2_dispatched:
  assumes "region_cfg w = Loaded rc" and "obslist w = Loaded oc"
    and "environ2 w ''HEADAS'' \<noteq> None" and "environ2 w ''CALDB'' \<noteq> None"
  shows "main2 w order res =
           \<lparr>ending2_of = (if concat (map failure_of (as_completed order (tasks_of oc rc) res)) \<noteq> []
                           then SysExit 1 else SysExit 0),
            submitted2_of = tasks_of oc rc,
            reports2_of = map report2_of (as_completed order (tasks_of oc rc) res),
            failures_of = concat (map failure_of (as_completed order (tasks_of oc rc) res))\<rparr>"
proof -
  have c: "collect2 xs = (map report2_of xs, concat (map failure_of xs))" for xs
    using collect2_reports[of xs] collect2_failures[of xs] by (cases "collect2 xs") simp
  from assms show ?thesis by (auto simp: main2_def Let_def c)
qed

lemma no_failures_iff:
  "concat (map failure_of (as_completed order tasks res)) = [] \<longleftrightarrow>
     (\<forall>i \<in> set order. \<exists>oid detd combd. res i = Value (oid, detd, combd, 0))"
  by (simp add: as_completed_def failure_of_Nil_iff)

section \<open>The claims\<close>

subsection \<open>C1: the exit status\<close>

text \<open>
  C1, as it holds. In the stage-2 driver, once both configurations are loaded and the
  environment is set, the exit status is 0 exactly when \<open>failures\<close> is empty and 1 exactly
  when it is not, and \<open>failures\<close> is empty exactly when every future returned exit code 0.
  The stage-1 driver keeps no set of failures: whenever it dispatched and no future raised,
  \<open>main\<close> returns and the exit status is 0, whatever exit codes the units returned.
\<close>

theorem C1_exit_status_by_driver:
  "(region_cfg w2 = Loaded rc \<and> obslist w2 = Loaded oc \<and>
      environ2 w2 ''HEADAS'' \<noteq> None \<and> environ2 w2 ''CALDB'' \<noteq> None \<longrightarrow>
      (exit_status (ending2_of (main2 w2 order2 res2)) = 0 \<longleftrightarrow>
         failures_of (main2 w2 order2 res2) = []) \<and>
      (exit_status (ending2_of (main2 w2 order2 res2)) = 1 \<longleftrightarrow>
         failures_of (main2 w2 order2 res2) \<noteq> []) \<and>
      (failures_of (main2 w2 order2 res2) = [] \<longleftrightarrow>
         (\<forall>i \<in> set order2. \<exists>oid detd combd. res2 i = Value (oid, detd, combd, 0)))) \<and>
   (submitted_of (main1 w1 p j order1 res1) \<noteq> [] \<and> (\<forall>i \<in> set order1. \<exists>v. res1 i = Value v) \<longrightarrow>
      ending_of (main1 w1 p j order1 res1) = Returns \<and>
      exit_status (ending_of (main1 w1 p j order1 res1)) = 0)"
proof (intro conjI impI)
  assume a: "region_cfg w2 = Loaded rc \<and> obslist w2 = Loaded oc \<and>
      environ2 w2 ''HEADAS'' \<noteq> None \<and> environ2 w2 ''CALDB'' \<noteq> None"
  then have m: "main2 w2 order2 res2 =
           \<lparr>ending2_of = (if concat (map failure_of (as_completed order2 (tasks_of oc rc) res2)) \<noteq> []
                           then SysExit 1 else SysExit 0),
            submitted2_of = tasks_of oc rc,
            reports2_of = map report2_of (as_completed order2 (tasks_of oc rc) res2),
            failures_of = concat (map failure_of (as_completed order2 (tasks_of oc rc) res2))\<rparr>"
    by (intro main2_dispatched) simp_all
  show "exit_status (ending2_of (main2 w2 order2 res2)) = 0 \<longleftrightarrow>
         failures_of (main2 w2 order2 res2) = []"
    by (simp add: m)
  show "exit_status (ending2_of (main2 w2 order2 res2)) = 1 \<longleftrightarrow>
         failures_of (main2 w2 order2 res2) \<noteq> []"
    by (simp add: m)
  show "failures_of (main2 w2 order2 res2) = [] \<longleftrightarrow>
         (\<forall>i \<in> set order2. \<exists>oid detd combd. res2 i = Value (oid, detd, combd, 0))"
    unfolding m using no_failures_iff[of order2 "tasks_of oc rc" res2] by simp
next
  assume a: "submitted_of (main1 w1 p j order1 res1) \<noteq> [] \<and> (\<forall>i \<in> set order1. \<exists>v. res1 i = Value v)"
  then obtain cfg fs2 wl ev where m: "main1 w1 p j order1 res1 =
             \<lparr>ending_of = (case snd (dispatch1 (as_completed order1 wl res1)) of
                             None \<Rightarrow> Returns | Some e \<Rightarrow> Uncaught e),
              files_of = fs2, plan_events_of = ev, submitted_of = wl,
              reports_of = fst (dispatch1 (as_completed order1 wl res1))\<rparr>"
    using main1_dispatched[of w1 p j order1 res1] by blast
  from a have "\<forall>x \<in> set (as_completed order1 wl res1). \<exists>v. snd x = Value v"
    by (auto simp: as_completed_def)
  then have n: "snd (dispatch1 (as_completed order1 wl res1)) = None"
    using dispatch1_no_raise by blast
  show "ending_of (main1 w1 p j order1 res1) = Returns" by (simp add: m n)
  then show "exit_status (ending_of (main1 w1 p j order1 res1)) = 0" by simp
qed

text \<open>
  The demo batches: stage 2 with every unit exiting 0 and with every unit exiting 2, stage 1
  with both queued units exiting 0.
\<close>

theorem C1_exit_status_by_driver_witness:
  "exit_status (ending2_of (main2 world_demo2 [0, 1, 2, 3]
       (\<lambda>i. Value (''1'', A, (30, 70, 120, 10), 0)))) = 0 \<and>
   exit_status (ending2_of (main2 world_demo2 [0, 1, 2, 3]
       (\<lambda>i. Value (''1'', A, (30, 70, 120, 10), 2)))) = 1 \<and>
   exit_status (ending_of (main1 world_demo1 ''obslist.json'' Auto [1, 0]
       (\<lambda>i. Value (''1'', 0)))) = 0"
proof -
  have l: "region_cfg world_demo2 = Loaded rcfg_demo \<and> obslist world_demo2 = Loaded ocfg_demo \<and>
      environ2 world_demo2 ''HEADAS'' \<noteq> None \<and> environ2 world_demo2 ''CALDB'' \<noteq> None"
    by (simp add: world_demo2_def env_demo_def)
  have ok: "\<forall>i \<in> set [0, 1, 2, 3::nat]. \<exists>oid detd combd.
      (Value (''1'', A, (30, 70, 120, 10), 0) :: outcome fut) = Value (oid, detd, combd, 0)"
    by simp
  have bad: "failures_of (main2 world_demo2 [0, 1, 2, 3]
       (\<lambda>i. Value (''1'', A, (30, 70, 120, 10), 2))) \<noteq> []"
    by code_simp
  have s1: "submitted_of (main1 world_demo1 ''obslist.json'' Auto [1, 0] (\<lambda>i. Value (''1'', 0))) \<noteq> []"
    by code_simp
  have s: "submitted_of (main1 world_demo1 ''obslist.json'' Auto [1, 0] (\<lambda>i. Value (''1'', 0))) \<noteq> [] \<and>
      (\<forall>i \<in> set [1, 0::nat]. \<exists>v. (Value (''1'', 0) :: (string \<times> int) fut) = Value v)"
    using s1 by simp
  have "exit_status (ending2_of (main2 world_demo2 [0, 1, 2, 3]
       (\<lambda>i. Value (''1'', A, (30, 70, 120, 10), 0)))) = 0"
    using C1_exit_status_by_driver[of world_demo2 rcfg_demo ocfg_demo "[0, 1, 2, 3]"
        "\<lambda>i. Value (''1'', A, (30, 70, 120, 10), 0)" world_demo1 "''obslist.json''" Auto "[1, 0]"
        "\<lambda>i. Value (''1'', 0)"] l ok
    by blast
  moreover have "exit_status (ending2_of (main2 world_demo2 [0, 1, 2, 3]
       (\<lambda>i. Value (''1'', A, (30, 70, 120, 10), 2)))) = 1"
    using C1_exit_status_by_driver[of world_demo2 rcfg_demo ocfg_demo "[0, 1, 2, 3]"
        "\<lambda>i. Value (''1'', A, (30, 70, 120, 10), 2)" world_demo1 "''obslist.json''" Auto "[1, 0]"
        "\<lambda>i. Value (''1'', 0)"] l bad
    by blast
  moreover have "exit_status (ending_of (main1 world_demo1 ''obslist.json'' Auto [1, 0]
       (\<lambda>i. Value (''1'', 0)))) = 0"
    using C1_exit_status_by_driver[of world_demo2 rcfg_demo ocfg_demo "[0, 1, 2, 3]"
        "\<lambda>i. Value (''1'', A, (30, 70, 120, 10), 0)" world_demo1 "''obslist.json''" Auto "[1, 0]"
        "\<lambda>i. Value (''1'', 0)"] s
    by blast
  ultimately show ?thesis by blast
qed

text \<open>
  C1 as stated fails in stage 1: observation \<open>1\<close> exits with code 2, the driver reports the
  failure and the exit status is still 0.
\<close>

theorem C1_stage1_exit_status_counterexample:
  "exit_status (ending_of (main1 world_demo1 ''obslist.json'' Auto [0, 1] results1_exit2)) = 0 \<and>
   reports_of (main1 world_demo1 ''obslist.json'' Auto [0, 1] results1_exit2) =
     [ExitedWithCode ''1'' 2, FinishedOK ''3'']"
  by code_simp

subsection \<open>C2: the completion marker of stage 2\<close>

text \<open>
  C2. Whenever the launcher ran the subprocess and the call returned \<open>rc\<close>, the marker
  is appended exactly when \<open>rc = 0\<close>; the append is the action right after the
  return of the call and the last one; and the log then holds the tool's output followed by
  the marker line when \<open>rc = 0\<close>, and the tool's output alone otherwise.
\<close>

theorem C2_marker_only_after_zero_exit:
  assumes "launch tool fs t = (fs', events, result)" and "CallReturned rc \<in> set events"
  shows "(MarkerAppended (log_path2 (outdir2 t)) \<in> set events \<longleftrightarrow> rc = 0) \<and>
         (\<exists>before. events = before @ CallReturned rc #
                      (if rc = 0 then [MarkerAppended (log_path2 (outdir2 t))] else []) \<and>
                    (\<forall>p. MarkerAppended p \<notin> set before)) \<and>
         (\<exists>out. tool t = Exits rc out \<and>
                fs' (log_path2 (outdir2 t)) = File (if rc = 0 then out @ marker_line else out))"
proof -
  let ?l = "log_path2 (outdir2 t)"
  from launch_called[OF assms] obtain fs2 out where
    tl: "tool t = Exits rc out"
    and ev: "events = [MadeDir (outdir2 t), Checked ?l, OpenedLog ?l, CallReturned rc] @
                      (if rc = 0 then [MarkerAppended ?l] else [])"
    and fs: "fs' = fs2(?l := File (if rc = 0 then out @ marker_line else out))"
    by blast
  have 1: "MarkerAppended ?l \<in> set events \<longleftrightarrow> rc = 0" by (simp add: ev)
  have "events = [MadeDir (outdir2 t), Checked ?l, OpenedLog ?l] @ CallReturned rc #
                      (if rc = 0 then [MarkerAppended ?l] else []) \<and>
        (\<forall>p. MarkerAppended p \<notin> set [MadeDir (outdir2 t), Checked ?l, OpenedLog ?l])"
    by (simp add: ev)
  then have 2: "\<exists>before. events = before @ CallReturned rc #
                      (if rc = 0 then [MarkerAppended ?l] else []) \<and>
                    (\<forall>p. MarkerAppended p \<notin> set before)" by blast
  have 3: "\<exists>out. tool t = Exits rc out \<and>
                fs' ?l = File (if rc = 0 then out @ marker_line else out)"
    using tl fs by simp
  from 1 2 3 show ?thesis by blast
qed

theorem C2_marker_only_after_zero_exit_witness:
  "MarkerAppended (log_path2 outdir_demo) \<in>
     set (fst (snd (launch (\<lambda>t. Exits 0 ''hello'') (\<lambda>p. if p = [] then Dir else Absent) task_demo))) \<and>
   MarkerAppended (log_path2 outdir_demo) \<notin>
     set (fst (snd (launch (\<lambda>t. Exits 2 ''hello'') (\<lambda>p. if p = [] then Dir else Absent) task_demo)))"
proof -
  let ?fs = "\<lambda>p::path. if p = [] then Dir else Absent"
  let ?ok = "launch (\<lambda>t. Exits 0 ''hello'') ?fs task_demo"
  let ?ko = "launch (\<lambda>t. Exits 2 ''hello'') ?fs task_demo"
  have o: "outdir2 task_demo = outdir_demo" by code_simp
  have c0: "CallReturned 0 \<in> set (fst (snd ?ok))" by code_simp
  have c2: "CallReturned 2 \<in> set (fst (snd ?ko))" by code_simp
  have "MarkerAppended (log_path2 (outdir2 task_demo)) \<in> set (fst (snd ?ok))"
    using C2_marker_only_after_zero_exit[of "\<lambda>t. Exits 0 ''hello''" ?fs task_demo
        "fst ?ok" "fst (snd ?ok)" "snd (snd ?ok)" 0] c0
    by simp
  moreover have "MarkerAppended (log_path2 (outdir2 task_demo)) \<notin> set (fst (snd ?ko))"
    using C2_marker_only_after_zero_exit[of "\<lambda>t. Exits 2 ''hello''" ?fs task_demo
        "fst ?ko" "fst (snd ?ko)" "snd (snd ?ko)" 2] c2
    by simp
  ultimately show ?thesis by (simp add: o)
qed

subsection \<open>C3: where completion is checked\<close>

text \<open>
  C3, as it holds. Stage 1 submits exactly the configured observations that its check finds
  in need of a run, in their order, and logs every complete one as skipped. Stage 2 asks
  nothing before dispatch and submits every candidate unit; the check is made by the
  launcher in the worker, which for a complete unit returns exit code 0 after making the
  directory and checking, without opening the log or calling the tool.
\<close>

theorem C3_who_checks_completion:
  "(config1 w1 p = Loaded cfg \<and> environ1 w1 ''HEADAS'' \<noteq> None \<and> environ1 w1 ''CALDB'' \<noteq> None \<and>
      resolve_workers (cpu_count1 w1) j = Inr n \<and> 0 < n \<longrightarrow>
      submitted_of (main1 w1 p j order1 res1) =
        filter (needs_rerun1 (files1 w1) cfg) (observations cfg) \<and>
      (\<forall>obs \<in> set (observations cfg). \<not> needs_rerun1 (files1 w1) cfg obs \<longrightarrow>
         Skipped obs \<in> set (plan_events_of (main1 w1 p j order1 res1)) \<and>
         obs \<notin> set (submitted_of (main1 w1 p j order1 res1)))) \<and>
   (region_cfg w2 = Loaded rc \<and> obslist w2 = Loaded oc \<and>
      environ2 w2 ''HEADAS'' \<noteq> None \<and> environ2 w2 ''CALDB'' \<noteq> None \<longrightarrow>
      submitted2_of (main2 w2 order2 res2) = tasks_of oc rc) \<and>
   (is_dir fs (outdir2 (obsid, det, cfg2, comb)) \<and>
      needs_rerun2 fs (outdir2 (obsid, det, cfg2, comb)) = Inr False \<longrightarrow>
      launch tool fs (obsid, det, cfg2, comb) =
        (fs, [MadeDir (outdir2 (obsid, det, cfg2, comb)),
              Checked (log_path2 (outdir2 (obsid, det, cfg2, comb)))],
         Value (obsid, det, comb, 0)))"
proof (intro conjI impI ballI)
  assume a: "config1 w1 p = Loaded cfg \<and> environ1 w1 ''HEADAS'' \<noteq> None \<and>
      environ1 w1 ''CALDB'' \<noteq> None \<and> resolve_workers (cpu_count1 w1) j = Inr n \<and> 0 < n"
  then have m: "submitted_of (main1 w1 p j order1 res1) =
         fst (snd (plan1 cfg (files1 w1) (observations cfg)))"
    and e: "plan_events_of (main1 w1 p j order1 res1) =
         snd (snd (plan1 cfg (files1 w1) (observations cfg)))"
    using main1_planned[of w1 p cfg j n order1 res1] by simp_all
  show s: "submitted_of (main1 w1 p j order1 res1) =
        filter (needs_rerun1 (files1 w1) cfg) (observations cfg)"
    by (simp add: m plan1_worklist)
  fix obs
  assume o: "obs \<in> set (observations cfg)" and c: "\<not> needs_rerun1 (files1 w1) cfg obs"
  show "Skipped obs \<in> set (plan_events_of (main1 w1 p j order1 res1))"
    using o c by (simp add: e plan1_skipped)
  show "obs \<notin> set (submitted_of (main1 w1 p j order1 res1))"
    using c by (simp add: s)
next
  assume "region_cfg w2 = Loaded rc \<and> obslist w2 = Loaded oc \<and>
      environ2 w2 ''HEADAS'' \<noteq> None \<and> environ2 w2 ''CALDB'' \<noteq> None"
  then show "submitted2_of (main2 w2 order2 res2) = tasks_of oc rc"
    using main2_dispatched[of w2 rc oc order2 res2] by simp
next
  let ?t = "(obsid, det, cfg2, comb)"
  assume a: "is_dir fs (outdir2 ?t) \<and> needs_rerun2 fs (outdir2 ?t) = Inr False"
  then have m: "mkdir_p fs (outdir2 ?t) = Inr fs" by (simp add: is_dir_def mkdir_p_Dir)
  from a have n: "needs_rerun2 fs (outdir2 ?t) = Inr False" by simp
  show "launch tool fs ?t =
        (fs, [MadeDir (outdir2 ?t), Checked (log_path2 (outdir2 ?t))], Value (obsid, det, comb, 0))"
    by (rule launch_complete[OF m n])
qed

text \<open>
  The demo batches: stage 1 submits observations \<open>1\<close> and \<open>3\<close> and skips \<open>2\<close>; stage 2
  submits its four units, and the launcher answers the finished one without a call.
\<close>

theorem C3_who_checks_completion_witness:
  "submitted_of (main1 world_demo1 ''obslist.json'' Auto [0, 1] (\<lambda>i. Value (''1'', 0))) =
     [''1'', ''3''] \<and>
   length (submitted2_of (main2 world_demo2 [0, 1, 2, 3] (\<lambda>i. Raises OSError))) = 4 \<and>
   launch (\<lambda>t. Exits 1 ''unused'') fs_demo2 task_demo =
     (fs_demo2, [MadeDir outdir_demo, Checked (log_path2 outdir_demo)],
      Value (''1'', A, (30, 70, 120, 10), 0))"
proof -
  let ?t = "(''1'', A, (ocfg_demo, rcfg_demo), (30, 70, 120, 10))"
  have o: "outdir2 ?t = outdir_demo" by code_simp
  have h1: "config1 world_demo1 ''obslist.json'' = Loaded cfg_demo \<and>
      environ1 world_demo1 ''HEADAS'' \<noteq> None \<and> environ1 world_demo1 ''CALDB'' \<noteq> None \<and>
      resolve_workers (cpu_count1 world_demo1) Auto = Inr 2 \<and> (0::int) < 2"
    by (simp add: world_demo1_def env_demo_def resolve_workers_def)
  have f: "filter (needs_rerun1 (files1 world_demo1) cfg_demo) (observations cfg_demo) = [''1'', ''3'']"
    by code_simp
  have h2: "region_cfg world_demo2 = Loaded rcfg_demo \<and> obslist world_demo2 = Loaded ocfg_demo \<and>
      environ2 world_demo2 ''HEADAS'' \<noteq> None \<and> environ2 world_demo2 ''CALDB'' \<noteq> None"
    by (simp add: world_demo2_def env_demo_def)
  have t: "length (tasks_of ocfg_demo rcfg_demo) = 4" by code_simp
  have h3: "is_dir fs_demo2 (outdir2 ?t) \<and> needs_rerun2 fs_demo2 (outdir2 ?t) = Inr False"
    unfolding o by code_simp
  note inst = C3_who_checks_completion[of world_demo1 "''obslist.json''" cfg_demo Auto 2 "[0, 1]"
      "\<lambda>i. Value (''1'', 0)" world_demo2 rcfg_demo ocfg_demo "[0, 1, 2, 3]" "\<lambda>i. Raises OSError"
      fs_demo2 "''1''" A "(ocfg_demo, rcfg_demo)" "(30, 70, 120, 10)" "\<lambda>t. Exits 1 ''unused''"]
  have 1: "submitted_of (main1 world_demo1 ''obslist.json'' Auto [0, 1] (\<lambda>i. Value (''1'', 0))) =
     [''1'', ''3'']"
    using inst h1 f by simp
  have 2: "length (submitted2_of (main2 world_demo2 [0, 1, 2, 3] (\<lambda>i. Raises OSError))) = 4"
    using inst h2 t by simp
  have "launch (\<lambda>t. Exits 1 ''unused'') fs_demo2 ?t =
     (fs_demo2, [MadeDir (outdir2 ?t), Checked (log_path2 (outdir2 ?t))],
      Value (''1'', A, (30, 70, 120, 10), 0))"
    using inst h3 by blast
  then have 3: "launch (\<lambda>t. Exits 1 ''unused'') fs_demo2 task_demo =
     (fs_demo2, [MadeDir outdir_demo, Checked (log_path2 outdir_demo)],
      Value (''1'', A, (30, 70, 120, 10), 0))"
    unfolding o task_demo_def .
  from 1 2 3 show ?thesis by blast
qed

text \<open>
  C3 as stated fails in stage 2: the unit of detector A and radius 30 is complete on the
  demo file system, and the driver submits it to the pool.
\<close>

theorem C3_stage2_submits_complete_unit_counterexample:
  "needs_rerun2 (files2 world_demo2) (outdir2 task_demo) = Inr False \<and>
   task_demo \<in> set (submitted2_of (main2 world_demo2 [0, 1, 2, 3] results2_ok))"
  by code_simp

subsection \<open>C4: one report per future\<close>

text \<open>
  C4, as it holds. When every future comes to an end, the loop of stage 2 reports each
  future exactly once, as its own result demands, whatever the results are: exit codes or
  exceptions. The loop of stage 1 does so when every future returns an exit code, zero or
  not; a raising future ends it, with the reports of the futures that completed before it.
\<close>

theorem C4_one_report_per_future:
  "(all_complete order2 tasks \<longrightarrow>
      mset (fst (collect2 (as_completed order2 tasks res2))) =
        mset (map (\<lambda>i. report2_of (tasks ! i, res2 i)) [0..<length tasks])) \<and>
   (all_complete order1 units \<longrightarrow>
      snd (dispatch1 (as_completed order1 units (\<lambda>i. Value (ids i, rcs i)))) = None \<and>
      mset (fst (dispatch1 (as_completed order1 units (\<lambda>i. Value (ids i, rcs i))))) =
        mset (map (\<lambda>i. if rcs i \<noteq> 0 then ExitedWithCode (units ! i) (rcs i)
                        else FinishedOK (units ! i)) [0..<length units])) \<and>
   ((\<forall>x \<in> set pre. \<exists>v. snd x = Value v) \<longrightarrow>
      snd (dispatch1 (pre @ (obs, Raises e) # post)) = Some e \<and>
      length (fst (dispatch1 (pre @ (obs, Raises e) # post))) = length pre)"
proof (intro conjI impI)
  assume a: "all_complete order2 tasks"
  have "fst (collect2 (as_completed order2 tasks res2)) =
      map (\<lambda>i. report2_of (tasks ! i, res2 i)) order2"
    by (simp add: collect2_reports as_completed_def)
  then show "mset (fst (collect2 (as_completed order2 tasks res2))) =
        mset (map (\<lambda>i. report2_of (tasks ! i, res2 i)) [0..<length tasks])"
    using mset_map_all_complete[OF a] by simp
next
  assume a: "all_complete order1 units"
  have d: "dispatch1 (as_completed order1 units (\<lambda>i. Value (ids i, rcs i))) =
     (map (\<lambda>i. if rcs i \<noteq> 0 then ExitedWithCode (units ! i) (rcs i) else FinishedOK (units ! i)) order1,
      None)"
    unfolding as_completed_def by (rule dispatch1_values)
  show "snd (dispatch1 (as_completed order1 units (\<lambda>i. Value (ids i, rcs i)))) = None"
    by (simp add: d)
  show "mset (fst (dispatch1 (as_completed order1 units (\<lambda>i. Value (ids i, rcs i))))) =
        mset (map (\<lambda>i. if rcs i \<noteq> 0 then ExitedWithCode (units ! i) (rcs i)
                        else FinishedOK (units ! i)) [0..<length units])"
    unfolding d using mset_map_all_complete[OF a] by simp
next
  assume a: "\<forall>x \<in> set pre. \<exists>v. snd x = Value v"
  then show "snd (dispatch1 (pre @ (obs, Raises e) # post)) = Some e"
    using dispatch1_raise[of "pre @ (obs, Raises e) # post" e] by blast
  from a show "length (fst (dispatch1 (pre @ (obs, Raises e) # post))) = length pre"
    by (rule dispatch1_reports_until_raise)
qed

text \<open>
  Four stage-2 futures completing in the order 3, 1, 0, 2, of which one raises and one exits
  with code 2: four reports. Two stage-1 futures completing in the order 1, 0 with exit
  codes 5 and 0: two reports.
\<close>

theorem C4_one_report_per_future_witness:
  "size (mset (fst (collect2 (as_completed [3, 1, 0, 2] (tasks_of ocfg_demo rcfg_demo)
      (\<lambda>i. if i = 1 then Raises SpawnError
            else Value (''1'', A, (30, 70, 120, 10), if i = 2 then 2 else 0)))))) = 4 \<and>
   mset (fst (dispatch1 (as_completed [1, 0] [''1'', ''3''] (\<lambda>i. Value (''x'', if i = 0 then 5 else 0))))) =
     {#ExitedWithCode ''1'' 5, FinishedOK ''3''#}"
proof -
  let ?res = "\<lambda>i::nat. if i = 1 then Raises SpawnError
            else Value (''1'', A, (30::int, 70::int, 120::int, 10::int), if i = 2 then 2 else 0::int)"
  have n: "length (tasks_of ocfg_demo rcfg_demo) = 4" by code_simp
  have u: "[0..<4] = [0, 1, 2, 3]" by code_simp
  have c2: "all_complete [3, 1, 0, 2] (tasks_of ocfg_demo rcfg_demo)"
    by (simp add: all_complete_def n u)
  have c1: "all_complete [1, 0] [''1'', ''3'']"
    by (simp add: all_complete_def upt_rec)
  note inst = C4_one_report_per_future[of "[3, 1, 0, 2]" "tasks_of ocfg_demo rcfg_demo" ?res
      "[1, 0]" "[''1'', ''3'']" "\<lambda>i. ''x''" "\<lambda>i. if i = 0 then 5 else 0" "[]" "''1''" OSError "[]"]
  have "mset (fst (collect2 (as_completed [3, 1, 0, 2] (tasks_of ocfg_demo rcfg_demo) ?res))) =
        mset (map (\<lambda>i. report2_of (tasks_of ocfg_demo rcfg_demo ! i, ?res i))
                [0..<length (tasks_of ocfg_demo rcfg_demo)])"
    using inst c2 by blast
  then have "size (mset (fst (collect2 (as_completed [3, 1, 0, 2] (tasks_of ocfg_demo rcfg_demo) ?res)))) =
        length (tasks_of ocfg_demo rcfg_demo)"
    by simp
  then have 1: "size (mset (fst (collect2 (as_completed [3, 1, 0, 2] (tasks_of ocfg_demo rcfg_demo) ?res)))) = 4"
    using n by simp
  have "mset (fst (dispatch1 (as_completed [1, 0] [''1'', ''3''] (\<lambda>i. Value (''x'', if i = 0 then 5 else 0))))) =
        mset (map (\<lambda>i. if (if i = 0 then 5 else 0) \<noteq> (0::int)
                        then ExitedWithCode ([''1'', ''3''] ! i) (if i = 0 then 5 else 0)
                        else FinishedOK ([''1'', ''3''] ! i)) [0..<length [''1'', ''3'']])"
    using inst c1 by blast
  then have 2: "mset (fst (dispatch1 (as_completed [1, 0] [''1'', ''3''] (\<lambda>i. Value (''x'', if i = 0 then 5 else 0))))) =
     {#ExitedWithCode ''1'' 5, FinishedOK ''3''#}"
    by (simp add: upt_rec)
  from 1 2 show ?thesis by blast
qed

text \<open>
  C4 as stated fails in stage 1: the future of observation \<open>1\<close> completes first and raises,
  the future of observation \<open>3\<close> then returns exit code 0, and nothing is reported for
  either of the two submitted units.
\<close>

theorem C4_stage1_raise_hides_outcomes_counterexample:
  "submitted_of (main1 world_demo1 ''obslist.json'' Auto [0, 1] results1_raise) = [''1'', ''3''] \<and>
   results1_raise 1 = Value (''3'', 0) \<and>
   reports_of (main1 world_demo1 ''obslist.json'' Auto [0, 1] results1_raise) = []"
  by code_simp

subsection \<open>C5: a worker that raises\<close>

text \<open>
  C5, as it holds, for stage 2. Once the stage-2 driver dispatches, a future that raises
  (as the launcher's future does when the tool cannot be started, lemma
  \<open>launch_spawn_fails\<close>) adds to \<open>failures\<close> an entry with the status \<open>Exception\<close>,
  which is no exit code, under the unit's observation and detector; it is reported; and the
  driver still ends by \<open>sys.exit(1)\<close> after reporting every future.
\<close>

theorem C5_stage2_exception_is_a_failure:
  assumes "region_cfg w = Loaded rc" and "obslist w = Loaded oc"
    and "environ2 w ''HEADAS'' \<noteq> None" and "environ2 w ''CALDB'' \<noteq> None"
    and "i \<in> set order" and "tasks_of oc rc ! i = (obsid, det, cfg, comb)"
    and "res i = Raises e"
  shows "(obsid, det, Configuration cfg, Exception) \<in> set (failures_of (main2 w order res)) \<and>
         RaisedException obsid det cfg \<in> set (reports2_of (main2 w order res)) \<and>
         length (reports2_of (main2 w order res)) = length order \<and>
         ending2_of (main2 w order res) = SysExit 1 \<and>
         (\<forall>n. Exception \<noteq> ExitCode n)"
proof -
  let ?xs = "as_completed order (tasks_of oc rc) res"
  note m = main2_dispatched[OF assms(1-4), of order res]
  have x: "((obsid, det, cfg, comb), Raises e) \<in> set ?xs"
    using assms(5-7) by (force simp: as_completed_def)
  have f: "(obsid, det, Configuration cfg, Exception) \<in> set (concat (map failure_of ?xs))"
    using x by (auto simp: set_concat intro!: bexI[of _ "((obsid, det, cfg, comb), Raises e)"])
  have r: "RaisedException obsid det cfg \<in> set (map report2_of ?xs)"
    using x by (auto intro!: image_eqI[of _ _ "((obsid, det, cfg, comb), Raises e)"])
  from f have ne: "concat (map failure_of ?xs) \<noteq> []" by (metis empty_iff empty_set)
  have l: "length (map report2_of ?xs) = length order" by (simp add: as_completed_def)
  from f r ne l show ?thesis unfolding m by simp
qed

text \<open>
  The demo batch of stage 2 started on a file system that holds the root alone, with a tool
  that cannot be started: every worker runs the launcher, every future raises, and the
  driver records the failures and exits with status 1.
\<close>

theorem C5_stage2_exception_is_a_failure_witness:
  "(''1'', A, Configuration (ocfg_demo, rcfg_demo), Exception) \<in>
     set (failures_of (main2 world_demo2 [3, 1, 0, 2]
            (\<lambda>i. snd (snd (launch (\<lambda>t. CannotSpawn) (\<lambda>p. if p = [] then Dir else Absent)
                                (tasks_of ocfg_demo rcfg_demo ! i)))))) \<and>
   ending2_of (main2 world_demo2 [3, 1, 0, 2]
            (\<lambda>i. snd (snd (launch (\<lambda>t. CannotSpawn) (\<lambda>p. if p = [] then Dir else Absent)
                                (tasks_of ocfg_demo rcfg_demo ! i))))) =
     SysExit 1"
proof -
  have h1: "region_cfg world_demo2 = Loaded rcfg_demo" and h2: "obslist world_demo2 = Loaded ocfg_demo"
    and h3: "environ2 world_demo2 ''HEADAS'' \<noteq> None" and h4: "environ2 world_demo2 ''CALDB'' \<noteq> None"
    by (simp_all add: world_demo2_def env_demo_def)
  have h5: "(1::nat) \<in> set [3, 1, 0, 2]" by simp
  have h6: "tasks_of ocfg_demo rcfg_demo ! 1 = (''1'', A, (ocfg_demo, rcfg_demo), (50, 70, 120, 10))"
    by code_simp
  have h7: "snd (snd (launch (\<lambda>t. CannotSpawn) (\<lambda>p. if p = [] then Dir else Absent)
                        (tasks_of ocfg_demo rcfg_demo ! 1))) = Raises SpawnError"
    by code_simp
  show ?thesis
    using C5_stage2_exception_is_a_failure[where w = world_demo2 and rc = rcfg_demo
        and oc = ocfg_demo and i = 1 and order = "[3, 1, 0, 2]" and obsid = "''1''" and det = A
        and cfg = "(ocfg_demo, rcfg_demo)" and comb = "(50, 70, 120, 10)" and e = SpawnError
        and res = "\<lambda>i. snd (snd (launch (\<lambda>t. CannotSpawn) (\<lambda>p. if p = [] then Dir else Absent)
                                (tasks_of ocfg_demo rcfg_demo ! i)))"]
      h1 h2 h3 h4 h5 h6 h7
    by simp
qed

text \<open>
  C5 as stated fails in stage 1: the tool cannot be started for observation \<open>1\<close>,
  \<open>_launch_one\<close> raises in the worker, and the exception leaves the dispatch loop and
  \<open>main\<close>; no outcome is recorded for the unit.
\<close>

theorem C5_stage1_exception_propagates_counterexample:
  "results1_tool 0 = Raises SpawnError \<and>
   ending_of (main1 world_demo1 ''obslist.json'' Off [1, 0] results1_tool) = Uncaught SpawnError \<and>
   reports_of (main1 world_demo1 ''obslist.json'' Off [1, 0] results1_tool) = [FinishedOK ''3'']"
  by code_simp

subsection \<open>C6: the completion check of stage 1\<close>

text \<open>
  C6. The stage-1 check asks for a rerun when the log is not a file, and it reports the
  unit complete exactly when the log can be read and, among the last hundred lines of its
  text, some line's first match of the finished pattern has the unit's observation id as
  its group. For a log whose lines each end in a line end other than a CR alone (with or
  without a last line that has no line end), this says: complete exactly when the line at some index at most 100 from the end
  has such a match; so a line before the last hundred never makes the unit complete. A
  line that matches holds the literal followed by exactly the unit's id, a non-empty run
  of digits with no digit after it; so a line with another id does not make the unit
  complete. And a line in which the literal, preceded by no letter \<open>F\<close>, is followed by
  the id and by no further digit does match.
\<close>

theorem C6_stage1_completion_check:
  "(\<not> is_file fs (log_path1 cfg obsid) \<longrightarrow> needs_rerun1 fs cfg obsid) \<and>
   (\<not> needs_rerun1 fs cfg obsid \<longleftrightarrow>
      (\<exists>text. fs (log_path1 cfg obsid) = File text \<and>
         (\<exists>l \<in> set (last100 (splitlines text)). finish_search l = Some obsid))) \<and>
   (\<forall>lts rest lines.
      fs (log_path1 cfg obsid) = File (concat (map (\<lambda>(l, t). l @ t) lts) @ rest) \<and>
      (\<forall>(l, t) \<in> set lts.
         (\<forall>c \<in> set l. c \<notin> set [CHR 0x0A, CHR 0x0B, CHR 0x0C, CHR 0x0D,
                                      CHR 0x1C, CHR 0x1D, CHR 0x1E, CHR 0x85]) \<and>
         t \<in> set [[CHR 0x0A], [CHR 0x0B], [CHR 0x0C], [CHR 0x1C], [CHR 0x1D], [CHR 0x1E],
                  [CHR 0x85], [CHR 0x0D, CHR 0x0A]]) \<and>
      (\<forall>c \<in> set rest. c \<notin> set [CHR 0x0A, CHR 0x0B, CHR 0x0C, CHR 0x0D,
                                     CHR 0x1C, CHR 0x1D, CHR 0x1E, CHR 0x85]) \<and>
      lines = map fst lts @ (if rest = [] then [] else [rest]) \<longrightarrow>
      (\<not> needs_rerun1 fs cfg obsid \<longleftrightarrow>
         (\<exists>i < length lines. length lines \<le> i + 100 \<and> finish_search (lines ! i) = Some obsid))) \<and>
   (\<forall>line. finish_search line = Some obsid \<longrightarrow>
      obsid \<noteq> [] \<and> (\<forall>c \<in> set obsid. c \<in> set ''0123456789'') \<and>
      (\<exists>pre post. line = pre @ ''Finished nupipeline for '' @ obsid @ post \<and>
                   (post = [] \<or> hd post \<notin> set ''0123456789''))) \<and>
   (\<forall>pre post.
      obsid \<noteq> [] \<and> (\<forall>c \<in> set obsid. c \<in> set ''0123456789'') \<and>
      (post = [] \<or> hd post \<notin> set ''0123456789'') \<and> CHR ''F'' \<notin> set pre \<longrightarrow>
      finish_search (pre @ ''Finished nupipeline for '' @ obsid @ post) = Some obsid)"
proof -
  have 1: "\<not> is_file fs (log_path1 cfg obsid) \<longrightarrow> needs_rerun1 fs cfg obsid"
    by (simp add: needs_rerun1_def)
  note 2 = needs_rerun1_iff[of fs cfg obsid]
  have 3: "\<forall>lts rest lines.
      fs (log_path1 cfg obsid) = File (concat (map (\<lambda>(l, t). l @ t) lts) @ rest) \<and>
      (\<forall>(l, t) \<in> set lts.
         (\<forall>c \<in> set l. c \<notin> set [CHR 0x0A, CHR 0x0B, CHR 0x0C, CHR 0x0D,
                                      CHR 0x1C, CHR 0x1D, CHR 0x1E, CHR 0x85]) \<and>
         t \<in> set [[CHR 0x0A], [CHR 0x0B], [CHR 0x0C], [CHR 0x1C], [CHR 0x1D], [CHR 0x1E],
                  [CHR 0x85], [CHR 0x0D, CHR 0x0A]]) \<and>
      (\<forall>c \<in> set rest. c \<notin> set [CHR 0x0A, CHR 0x0B, CHR 0x0C, CHR 0x0D,
                                     CHR 0x1C, CHR 0x1D, CHR 0x1E, CHR 0x85]) \<and>
      lines = map fst lts @ (if rest = [] then [] else [rest]) \<longrightarrow>
      (\<not> needs_rerun1 fs cfg obsid \<longleftrightarrow>
         (\<exists>i < length lines. length lines \<le> i + 100 \<and> finish_search (lines ! i) = Some obsid))"
  proof (intro allI impI)
    fix lts :: "(string \<times> string) list" and rest :: string and lines :: "string list"
    assume a: "fs (log_path1 cfg obsid) = File (concat (map (\<lambda>(l, t). l @ t) lts) @ rest) \<and>
      (\<forall>(l, t) \<in> set lts.
         (\<forall>c \<in> set l. c \<notin> set [CHR 0x0A, CHR 0x0B, CHR 0x0C, CHR 0x0D,
                                      CHR 0x1C, CHR 0x1D, CHR 0x1E, CHR 0x85]) \<and>
         t \<in> set [[CHR 0x0A], [CHR 0x0B], [CHR 0x0C], [CHR 0x1C], [CHR 0x1D], [CHR 0x1E],
                  [CHR 0x85], [CHR 0x0D, CHR 0x0A]]) \<and>
      (\<forall>c \<in> set rest. c \<notin> set [CHR 0x0A, CHR 0x0B, CHR 0x0C, CHR 0x0D,
                                     CHR 0x1C, CHR 0x1D, CHR 0x1E, CHR 0x85]) \<and>
      lines = map fst lts @ (if rest = [] then [] else [rest])"
    then have h1: "\<forall>(l, t) \<in> set lts. (\<forall>c \<in> set l. \<not> is_linebreak c) \<and>
             t \<in> set [[CHR 0x0A], [CHR 0x0B], [CHR 0x0C], [CHR 0x1C], [CHR 0x1D], [CHR 0x1E],
                      [CHR 0x85], [CHR 0x0D, CHR 0x0A]]"
      and h2: "\<forall>c \<in> set rest. \<not> is_linebreak c"
      unfolding is_linebreak_def by blast+
    from splitlines_terminated_lines[OF h1 h2] a
    have s: "splitlines (concat (map (\<lambda>(l, t). l @ t) lts) @ rest) = lines" by simp
    have "\<not> needs_rerun1 fs cfg obsid \<longleftrightarrow>
        (\<exists>l \<in> set (last100 lines). finish_search l = Some obsid)"
      using needs_rerun1_iff[of fs cfg obsid] a s by auto
    then show "\<not> needs_rerun1 fs cfg obsid \<longleftrightarrow>
         (\<exists>i < length lines. length lines \<le> i + 100 \<and> finish_search (lines ! i) = Some obsid)"
      using last100_nth[of lines "\<lambda>l. finish_search l = Some obsid"] by simp
  qed
  have 4: "\<forall>line. finish_search line = Some obsid \<longrightarrow>
      obsid \<noteq> [] \<and> (\<forall>c \<in> set obsid. c \<in> set ''0123456789'') \<and>
      (\<exists>pre post. line = pre @ ''Finished nupipeline for '' @ obsid @ post \<and>
                   (post = [] \<or> hd post \<notin> set ''0123456789''))"
    using finish_search_form[of _ obsid] unfolding is_digit_def finish_literal_def by blast
  have 5: "\<forall>pre post.
      obsid \<noteq> [] \<and> (\<forall>c \<in> set obsid. c \<in> set ''0123456789'') \<and>
      (post = [] \<or> hd post \<notin> set ''0123456789'') \<and> CHR ''F'' \<notin> set pre \<longrightarrow>
      finish_search (pre @ ''Finished nupipeline for '' @ obsid @ post) = Some obsid"
    using finish_search_found[of obsid] unfolding is_digit_def finish_literal_def list_all_iff
    by blast
  from 1 2 3 4 5 show ?thesis by blast
qed

text \<open>
  In the demo batch observation \<open>2\<close> is complete, and \<open>3\<close>, which has no log, is not.
  A log of 101 lines whose first line is the finished line of observation \<open>7\<close> does not
  make it complete; with 100 lines it does.
\<close>

theorem C6_stage1_completion_check_witness:
  "\<not> needs_rerun1 fs_demo1 cfg_demo ''2'' \<and> needs_rerun1 fs_demo1 cfg_demo ''3'' \<and>
   needs_rerun1 (fs_lines_demo 100) cfg_demo ''7'' \<and>
   \<not> needs_rerun1 (fs_lines_demo 99) cfg_demo ''7'' \<and>
   finish_search ''12:00 Finished nupipeline for 7 ok'' = Some ''7''"
proof -
  let ?text = "''started'' @ [CHR 0x0A] @ ''Finished nupipeline for 2'' @ [CHR 0x0A]"
  have f: "fs_demo1 (log_path1 cfg_demo ''2'') = File ?text" by code_simp
  have s: "last100 (splitlines ?text) = [''started'', ''Finished nupipeline for 2'']"
    by code_simp
  have m: "finish_search ''Finished nupipeline for 2'' = Some ''2''" by code_simp
  have a: "\<not> is_file fs_demo1 (log_path1 cfg_demo ''3'')" by code_simp
  have 1: "\<not> needs_rerun1 fs_demo1 cfg_demo ''2''"
    using C6_stage1_completion_check[of fs_demo1 cfg_demo "''2''"] f s m by simp
  have 2: "needs_rerun1 fs_demo1 cfg_demo ''3''"
    using C6_stage1_completion_check[of fs_demo1 cfg_demo "''3''"] a by blast
  have nl: "\<forall>(l, t) \<in> set (terminated_demo n).
         (\<forall>c \<in> set l. c \<notin> set [CHR 0x0A, CHR 0x0B, CHR 0x0C, CHR 0x0D,
                                      CHR 0x1C, CHR 0x1D, CHR 0x1E, CHR 0x85]) \<and>
         t \<in> set [[CHR 0x0A], [CHR 0x0B], [CHR 0x0C], [CHR 0x1C], [CHR 0x1D], [CHR 0x1E],
                  [CHR 0x85], [CHR 0x0D, CHR 0x0A]]" for n
    by (auto simp: terminated_demo_def lines_demo_def)
  have nr: "\<forall>c \<in> set ([]::string). c \<notin> set [CHR 0x0A, CHR 0x0B, CHR 0x0C, CHR 0x0D,
                                     CHR 0x1C, CHR 0x1D, CHR 0x1E, CHR 0x85]" by simp
  have fl: "fs_lines_demo n (log_path1 cfg_demo ''7'') =
              File (concat (map (\<lambda>(l, t). l @ t) (terminated_demo n)) @ [])" for n
    by (simp add: fs_lines_demo_def)
  have ln: "lines_demo n =
      map fst (terminated_demo n) @ (if ([]::string) = [] then [] else [[]])" for n
    by (simp add: terminated_demo_def comp_def)
  have idx: "\<not> needs_rerun1 (fs_lines_demo n) cfg_demo ''7'' \<longleftrightarrow>
      (\<exists>i < length (lines_demo n). length (lines_demo n) \<le> i + 100 \<and>
          finish_search (lines_demo n ! i) = Some ''7'')" for n
    using C6_stage1_completion_check[of "fs_lines_demo n" cfg_demo "''7''"]
      fl[of n] nl[of n] nr ln[of n] by blast
  have e: "finish_search [] \<noteq> Some ''7''" by simp
  have h: "finish_search ''Finished nupipeline for 7'' = Some ''7''" by code_simp
  have "\<not> (\<exists>i < length (lines_demo 100). length (lines_demo 100) \<le> i + 100 \<and>
          finish_search (lines_demo 100 ! i) = Some ''7'')"
    using e by (auto simp: lines_demo_def nth_Cons')
  with idx[of 100] have 3: "needs_rerun1 (fs_lines_demo 100) cfg_demo ''7''" by blast
  have "0 < length (lines_demo 99) \<and> length (lines_demo 99) \<le> 0 + 100 \<and>
          finish_search (lines_demo 99 ! 0) = Some ''7''"
    using h by (simp add: lines_demo_def)
  with idx[of 99] have 4: "\<not> needs_rerun1 (fs_lines_demo 99) cfg_demo ''7''" by blast
  have 5: "finish_search ''12:00 Finished nupipeline for 7 ok'' = Some ''7''"
    using C6_stage1_completion_check[of fs_demo1 cfg_demo "''7''"] 
    by (elim conjE allE[of _ "''12:00 ''"] allE[of _ "'' ok''"]) simp
  from 1 2 3 4 5 show ?thesis by blast
qed

text \<open>
  A log of 101 lines whose first line is the finished line of observation \<open>7\<close>: the
  line lies before the last hundred and does not count. With 100 lines it counts.
\<close>

lemma finished_line_before_the_tail_example:
  "needs_rerun1
     (\<lambda>p. if p = [''out'', ''7_out'', ''nupipeline.log'']
           then File (''Finished nupipeline for 7'' @ replicate 101 (CHR 0x0A)) else Absent)
     cfg_demo ''7'' \<and>
   \<not> needs_rerun1
     (\<lambda>p. if p = [''out'', ''7_out'', ''nupipeline.log'']
           then File (''Finished nupipeline for 7'' @ replicate 100 (CHR 0x0A)) else Absent)
     cfg_demo ''7''"
  by code_simp

subsection \<open>C7: a log that cannot be read\<close>

text \<open>
  C7, as it holds. In stage 1, when the test \<open>is_file\<close> has answered that the log is a
  file and the read then raises, the check answers "not complete" and raises nothing
  (while a log that is read is judged by its last hundred lines). The
  stage-2 check has no handler: when the log exists and the read raises, the error of the
  read is the result of the check, and it is the result of the launcher that called it, so
  that the worker's future raises. Where access to the log is refused, the existence test
  of either stage raises before any read, and that error is the result of the check.
\<close>

theorem C7_unreadable_log_by_stage:
  "(is_file_io denied fs (log_path1 cfg obsid) = Inr True \<and>
      read_text_io denied fs (log_path1 cfg obsid) = Inl e \<longrightarrow>
      needs_rerun1_io denied fs cfg obsid = Inr True) \<and>
   (\<forall>text. is_file_io denied fs (log_path1 cfg obsid) = Inr True \<and>
      read_text_io denied fs (log_path1 cfg obsid) = Inr text \<longrightarrow>
      needs_rerun1_io denied fs cfg obsid =
        Inr (\<not> (\<exists>l \<in> set (last100 (splitlines text)). finish_search l = Some obsid))) \<and>
   (exists_io denied fs (log_path2 outdir) = Inr True \<and>
      read_text_io denied fs (log_path2 outdir) = Inl e \<longrightarrow>
      needs_rerun2_io denied fs outdir = Inl e) \<and>
   (is_dir fs (outdir2 t) \<and> exists_path fs (log_path2 (outdir2 t)) \<and>
      read_text fs (log_path2 (outdir2 t)) = Inl e \<longrightarrow>
      launch tool fs t = (fs, [MadeDir (outdir2 t), Checked (log_path2 (outdir2 t))], Raises e)) \<and>
   (denied (log_path1 cfg obsid) \<longrightarrow>
      is_file_io denied fs (log_path1 cfg obsid) = Inl OSError \<and>
      needs_rerun1_io denied fs cfg obsid = Inl OSError) \<and>
   (denied (log_path2 outdir) \<longrightarrow>
      exists_io denied fs (log_path2 outdir) = Inl OSError \<and>
      needs_rerun2_io denied fs outdir = Inl OSError)"
proof -
  have 1: "is_file_io denied fs (log_path1 cfg obsid) = Inr True \<and>
      read_text_io denied fs (log_path1 cfg obsid) = Inl e \<longrightarrow>
      needs_rerun1_io denied fs cfg obsid = Inr True"
    by (simp add: needs_rerun1_io_def)
  have ok: "\<forall>text. is_file_io denied fs (log_path1 cfg obsid) = Inr True \<and>
      read_text_io denied fs (log_path1 cfg obsid) = Inr text \<longrightarrow>
      needs_rerun1_io denied fs cfg obsid =
        Inr (\<not> (\<exists>l \<in> set (last100 (splitlines text)). finish_search l = Some obsid))"
    by (simp add: needs_rerun1_io_def scan_tail_iff)
  have 2: "exists_io denied fs (log_path2 outdir) = Inr True \<and>
      read_text_io denied fs (log_path2 outdir) = Inl e \<longrightarrow>
      needs_rerun2_io denied fs outdir = Inl e"
    by (simp add: needs_rerun2_io_def)
  have 3: "is_dir fs (outdir2 t) \<and> exists_path fs (log_path2 (outdir2 t)) \<and>
      read_text fs (log_path2 (outdir2 t)) = Inl e \<longrightarrow>
      launch tool fs t = (fs, [MadeDir (outdir2 t), Checked (log_path2 (outdir2 t))], Raises e)"
  proof
    assume a: "is_dir fs (outdir2 t) \<and> exists_path fs (log_path2 (outdir2 t)) \<and>
      read_text fs (log_path2 (outdir2 t)) = Inl e"
    then have m: "mkdir_p fs (outdir2 t) = Inr fs" by (simp add: is_dir_def mkdir_p_Dir)
    from a have n: "needs_rerun2 fs (outdir2 t) = Inl e" by (simp add: needs_rerun2_def)
    from launch_check_raises[OF m n]
    show "launch tool fs t = (fs, [MadeDir (outdir2 t), Checked (log_path2 (outdir2 t))], Raises e)" .
  qed
  have 4: "denied (log_path1 cfg obsid) \<longrightarrow>
      is_file_io denied fs (log_path1 cfg obsid) = Inl OSError \<and>
      needs_rerun1_io denied fs cfg obsid = Inl OSError"
    by (simp add: needs_rerun1_io_test_raises is_file_io_def)
  have 5: "denied (log_path2 outdir) \<longrightarrow>
      exists_io denied fs (log_path2 outdir) = Inl OSError \<and>
      needs_rerun2_io denied fs outdir = Inl OSError"
    by (simp add: needs_rerun2_io_test_raises exists_io_def)
  from 1 ok 2 3 4 5 show ?thesis by blast
qed

text \<open>
  Each stage with the log of its demo unit made unreadable and no access refused; and
  stage 1 with every access refused.
\<close>

theorem C7_unreadable_log_by_stage_witness:
  "needs_rerun1_io (\<lambda>p. False) (fs_demo1(log_path1 cfg_demo ''2'' := Unreadable)) cfg_demo ''2'' =
     Inr True \<and>
   needs_rerun2_io (\<lambda>p. False) fs_demo2_unreadable outdir_demo = Inl OSError \<and>
   snd (snd (launch tool2_ok fs_demo2_unreadable task_demo)) = Raises OSError \<and>
   needs_rerun1_io (\<lambda>p. True) fs_demo1 cfg_demo ''2'' = Inl OSError"
proof -
  let ?f1 = "fs_demo1(log_path1 cfg_demo ''2'' := Unreadable)"
  let ?f2 = "fs_demo2_unreadable"
  have o: "outdir2 task_demo = outdir_demo" by code_simp
  have h1: "is_file_io (\<lambda>p. False) ?f1 (log_path1 cfg_demo ''2'') = Inr True \<and>
            read_text_io (\<lambda>p. False) ?f1 (log_path1 cfg_demo ''2'') = Inl OSError"
    by (simp add: is_file_io_def read_text_io_def is_file_def read_text_def)
  have h2: "exists_io (\<lambda>p. False) ?f2 (log_path2 outdir_demo) = Inr True \<and>
            read_text_io (\<lambda>p. False) ?f2 (log_path2 outdir_demo) = Inl OSError"
    by (simp add: exists_io_def read_text_io_def exists_path_def read_text_def
          fs_demo2_unreadable_def)
  have h3: "is_dir ?f2 (outdir2 task_demo) \<and> exists_path ?f2 (log_path2 (outdir2 task_demo)) \<and>
            read_text ?f2 (log_path2 (outdir2 task_demo)) = Inl OSError"
    by (simp add: o is_dir_def exists_path_def read_text_def fs_demo2_unreadable_def fs_demo2_def)
  have 1: "needs_rerun1_io (\<lambda>p. False) ?f1 cfg_demo ''2'' = Inr True"
    using C7_unreadable_log_by_stage[where denied = "\<lambda>p. False" and fs = ?f1 and cfg = cfg_demo and obsid = "''2''"
        and e = OSError and outdir = outdir_demo and t = task_demo and tool = tool2_ok] h1
    by blast
  have 2: "needs_rerun2_io (\<lambda>p. False) ?f2 outdir_demo = Inl OSError \<and>
      launch tool2_ok ?f2 task_demo =
        (?f2, [MadeDir (outdir2 task_demo), Checked (log_path2 (outdir2 task_demo))], Raises OSError)"
    using C7_unreadable_log_by_stage[where denied = "\<lambda>p. False" and fs = ?f2 and cfg = cfg_demo and obsid = "''2''"
        and e = OSError and outdir = outdir_demo and t = task_demo and tool = tool2_ok] h2 h3
    by blast
  have 3: "needs_rerun1_io (\<lambda>p. True) fs_demo1 cfg_demo ''2'' = Inl OSError"
    using C7_unreadable_log_by_stage[where denied = "\<lambda>p. True" and fs = fs_demo1 and cfg = cfg_demo
        and obsid = "''2''" and e = OSError and outdir = outdir_demo and t = task_demo
        and tool = tool2_ok]
    by blast
  from 1 2 3 show ?thesis by simp
qed

text \<open>
  C7 as stated fails in stage 2: the log of the demo unit exists and its read raises, and
  the check does not answer "not complete" (\<open>Inr True\<close>), it raises.
\<close>

theorem C7_stage2_check_raises_counterexample:
  "exists_path fs_demo2_unreadable (log_path2 outdir_demo) \<and>
   read_text fs_demo2_unreadable (log_path2 outdir_demo) = Inl OSError \<and>
   needs_rerun2 fs_demo2_unreadable outdir_demo = Inl OSError \<and>
   needs_rerun2 fs_demo2_unreadable outdir_demo \<noteq> Inr True"
  by (simp add: needs_rerun2_def exists_path_def read_text_def fs_demo2_unreadable_def)

subsection \<open>C8: stage 1 wipes a partial output directory before queueing\<close>

text \<open>
  C8. After the planning loop of stage 1 over \<open>obsids\<close>: a unit that the check judges
  incomplete and whose output directory exists is on the work list, nothing is left at or
  below its output directory, and the removal is the action right before its first append
  to the work list; a unit whose log holds the valid finished line is not on the work list,
  is never appended, and every path at or below its output directory is as it was.
\<close>

theorem C8_stage1_wipe_before_queue:
  assumes "plan1 cfg fs obsids = (fs', worklist, events)" and "obs \<in> set obsids"
  shows "(needs_rerun1 fs cfg obs \<and> is_dir fs (outdir1 cfg obs) \<longrightarrow>
            obs \<in> set worklist \<and>
            (\<forall>q. prefix (outdir1 cfg obs) q \<longrightarrow> fs' q = Absent) \<and>
            (\<exists>before after. events = before @ [Wiped (outdir1 cfg obs), Queued obs] @ after \<and>
                             Queued obs \<notin> set before)) \<and>
         ((\<exists>text. fs (log_path1 cfg obs) = File text \<and>
             (\<exists>l \<in> set (last100 (splitlines text)). finish_search l = Some obs)) \<longrightarrow>
            obs \<notin> set worklist \<and> Queued obs \<notin> set events \<and> Skipped obs \<in> set events \<and>
            (\<forall>q. prefix (outdir1 cfg obs) q \<longrightarrow> fs' q = fs q))"
proof (intro conjI impI)
  have w: "worklist = filter (needs_rerun1 fs cfg) obsids"
    using plan1_worklist[of cfg fs obsids] assms(1) by simp
  have f: "fs' q = (if \<exists>y \<in> set obsids. needs_rerun1 fs cfg y \<and> is_dir fs (outdir1 cfg y) \<and>
                              prefix (outdir1 cfg y) q then Absent else fs q)" for q
    using plan1_files[of cfg fs obsids q] assms(1) by simp
  have e: "events = snd (snd (plan1 cfg fs obsids))" using assms(1) by simp
  {
    assume a: "needs_rerun1 fs cfg obs \<and> is_dir fs (outdir1 cfg obs)"
    show "obs \<in> set worklist" using a assms(2) w by simp
    show "\<forall>q. prefix (outdir1 cfg obs) q \<longrightarrow> fs' q = Absent"
      using a assms(2) f by auto
    show "\<exists>before after. events = before @ [Wiped (outdir1 cfg obs), Queued obs] @ after \<and>
                             Queued obs \<notin> set before"
      unfolding e using plan1_wipe_then_queue[of obs obsids fs cfg] a assms(2) by blast
  }
  {
    assume "\<exists>text. fs (log_path1 cfg obs) = File text \<and>
             (\<exists>l \<in> set (last100 (splitlines text)). finish_search l = Some obs)"
    then have c: "\<not> needs_rerun1 fs cfg obs" using needs_rerun1_iff[of fs cfg obs] by blast
    show "obs \<notin> set worklist" using c w by simp
    show "Queued obs \<notin> set events" unfolding e using c by (simp add: plan1_queued)
    show "Skipped obs \<in> set events" unfolding e using c assms(2) by (simp add: plan1_skipped)
    show "\<forall>q. prefix (outdir1 cfg obs) q \<longrightarrow> fs' q = fs q"
    proof (intro allI impI)
      fix q assume p: "prefix (outdir1 cfg obs) q"
      have ne: "\<not> (\<exists>y \<in> set obsids. needs_rerun1 fs cfg y \<and> is_dir fs (outdir1 cfg y) \<and>
                              prefix (outdir1 cfg y) q)"
      proof
        assume "\<exists>y \<in> set obsids. needs_rerun1 fs cfg y \<and> is_dir fs (outdir1 cfg y) \<and>
                              prefix (outdir1 cfg y) q"
        then obtain y where y: "needs_rerun1 fs cfg y" "prefix (outdir1 cfg y) q" by blast
        from p y(2) have "prefix (outdir1 cfg obs) (outdir1 cfg y) \<or>
            prefix (outdir1 cfg y) (outdir1 cfg obs)"
          by (metis prefix_same_cases)
        then have "y = obs" by (auto simp: outdir1_prefix_iff2)
        with y(1) c show False by simp
      qed
      show "fs' q = fs q" by (subst f) (rule if_not_P[OF ne])
    qed
  }
qed

text \<open>
  The demo batch: the interrupted observation \<open>1\<close> loses its directory and what lies below
  it and is queued; the finished observation \<open>2\<close> keeps its log and is not queued.
\<close>

theorem C8_stage1_wipe_before_queue_witness:
  "''1'' \<in> set (fst (snd (plan1 cfg_demo fs_demo1 [''1'', ''2'', ''3'']))) \<and>
   fst (plan1 cfg_demo fs_demo1 [''1'', ''2'', ''3'']) [''out'', ''1_out'', ''event_cl''] = Absent \<and>
   ''2'' \<notin> set (fst (snd (plan1 cfg_demo fs_demo1 [''1'', ''2'', ''3'']))) \<and>
   fst (plan1 cfg_demo fs_demo1 [''1'', ''2'', ''3'']) (log_path1 cfg_demo ''2'') =
     fs_demo1 (log_path1 cfg_demo ''2'')"
proof -
  let ?r = "plan1 cfg_demo fs_demo1 [''1'', ''2'', ''3'']"
  let ?text = "''started'' @ [CHR 0x0A] @ ''Finished nupipeline for 2'' @ [CHR 0x0A]"
  have r: "?r = (fst ?r, fst (snd ?r), snd (snd ?r))" by simp
  have h1: "needs_rerun1 fs_demo1 cfg_demo ''1'' \<and> is_dir fs_demo1 (outdir1 cfg_demo ''1'')"
    by code_simp
  have p1: "prefix (outdir1 cfg_demo ''1'') [''out'', ''1_out'', ''event_cl'']" by code_simp
  have f: "fs_demo1 (log_path1 cfg_demo ''2'') = File ?text" by code_simp
  have s: "\<exists>l \<in> set (last100 (splitlines ?text)). finish_search l = Some ''2''" by code_simp
  have p2: "prefix (outdir1 cfg_demo ''2'') (log_path1 cfg_demo ''2'')"
    by (simp add: log_path1_def)
  have "''1'' \<in> set (fst (snd ?r)) \<and> fst ?r [''out'', ''1_out'', ''event_cl''] = Absent"
    using C8_stage1_wipe_before_queue[OF r, of "''1''"] h1 p1 by simp
  moreover have "''2'' \<notin> set (fst (snd ?r)) \<and>
      fst ?r (log_path1 cfg_demo ''2'') = fs_demo1 (log_path1 cfg_demo ''2'')"
    using C8_stage1_wipe_before_queue[OF r, of "''2''"] f s p2 by simp
  ultimately show ?thesis by blast
qed

subsection \<open>C9: a missing configuration file\<close>




subsection \<open>C10: the output directory is made before the check\<close>

text \<open>
  C10. Whenever \<open>mkdir\<close> does not raise, the launcher's first action is to make the output
  directory and its second is the completion check, each done once; the check reads the
  file system in which the directory exists; the directory still exists when the launcher is
  done; and a unit found complete there is answered with exit code 0 after these two
  actions alone. A directory that was there is left as it is, only missing ancestors of
  the output directory are made, and, on a file system in which every node lies in a
  directory, every ancestor of the output directory is a directory when the check is made
  and when the launcher is done.
\<close>

theorem C10_outdir_made_before_check:
  assumes "mkdir_p fs (outdir2 (obsid, det, cfg, comb)) = Inr fs1"
    and "launch tool fs (obsid, det, cfg, comb) = (fs', events, result)"
  shows "is_dir fs1 (outdir2 (obsid, det, cfg, comb)) \<and>
         (\<forall>q. fs1 q \<noteq> fs q \<longrightarrow> fs q = Absent \<and> fs1 q = Dir \<and> prefix q (outdir2 (obsid, det, cfg, comb))) \<and>
         (is_dir fs (outdir2 (obsid, det, cfg, comb)) \<longrightarrow> fs1 = fs) \<and>
         ((\<forall>q. q \<noteq> [] \<and> fs q \<noteq> Absent \<longrightarrow> fs (butlast q) = Dir) \<longrightarrow>
            (\<forall>q. prefix q (outdir2 (obsid, det, cfg, comb)) \<longrightarrow> is_dir fs1 q \<and> is_dir fs' q)) \<and>
         (\<exists>rest. events = MadeDir (outdir2 (obsid, det, cfg, comb)) #
                           Checked (log_path2 (outdir2 (obsid, det, cfg, comb))) # rest \<and>
                  MadeDir (outdir2 (obsid, det, cfg, comb)) \<notin> set rest \<and>
                  Checked (log_path2 (outdir2 (obsid, det, cfg, comb))) \<notin> set rest) \<and>
         is_dir fs' (outdir2 (obsid, det, cfg, comb)) \<and>
         (needs_rerun2 fs1 (outdir2 (obsid, det, cfg, comb)) = Inr False \<longrightarrow>
            fs' = fs1 \<and> result = Value (obsid, det, comb, 0) \<and>
            events = [MadeDir (outdir2 (obsid, det, cfg, comb)),
                      Checked (log_path2 (outdir2 (obsid, det, cfg, comb)))])"
proof -
  let ?t = "(obsid, det, cfg, comb)"
  from mkdir_p_frame[OF assms(1)] have
    1: "is_dir fs1 (outdir2 ?t)"
    and 2: "\<forall>q. fs1 q \<noteq> fs q \<longrightarrow> fs q = Absent \<and> fs1 q = Dir \<and> prefix q (outdir2 ?t)"
    by (simp_all add: is_dir_def)
  have 3: "is_dir fs (outdir2 ?t) \<longrightarrow> fs1 = fs"
    using assms(1) by (auto simp: is_dir_def mkdir_p_Dir)
  have 4: "(\<forall>q. q \<noteq> [] \<and> fs q \<noteq> Absent \<longrightarrow> fs (butlast q) = Dir) \<longrightarrow>
            (\<forall>q. prefix q (outdir2 ?t) \<longrightarrow> is_dir fs1 q \<and> is_dir fs' q)"
  proof (intro impI allI)
    fix q
    assume wf: "\<forall>q. q \<noteq> [] \<and> fs q \<noteq> Absent \<longrightarrow> fs (butlast q) = Dir"
      and p: "prefix q (outdir2 ?t)"
    from mkdir_p_parents[OF wf assms(1) p] have d: "fs1 q = Dir" .
    from p have "q \<noteq> log_path2 (outdir2 ?t)" using log_not_prefix[of "outdir2 ?t"] by auto
    from launch_frame[OF assms this] d show "is_dir fs1 q \<and> is_dir fs' q"
      by (simp add: is_dir_def)
  qed
  note 5 = launch_events_start[OF assms]
  have 6: "is_dir fs' (outdir2 ?t)"
    using launch_keeps_outdir[OF assms] by (simp add: is_dir_def)
  have 7: "needs_rerun2 fs1 (outdir2 ?t) = Inr False \<longrightarrow>
            fs' = fs1 \<and> result = Value (obsid, det, comb, 0) \<and>
            events = [MadeDir (outdir2 ?t), Checked (log_path2 (outdir2 ?t))]"
    using launch_complete[OF assms(1), of tool] assms(2) by auto
  from 1 2 3 4 5 6 7 show ?thesis by blast
qed

text \<open>
  A launch on a file system that holds the root alone: the output directory of the demo
  unit and its parents are missing before the launch and are directories after it, and the
  launch begins with the two actions in this order.
\<close>

theorem C10_outdir_made_before_check_witness:
  "\<not> is_dir (\<lambda>p. if p = [] then Dir else Absent) outdir_demo \<and>
   \<not> is_dir (\<lambda>p. if p = [] then Dir else Absent) [''products''] \<and>
   is_dir (fst (launch (\<lambda>t. CannotSpawn) (\<lambda>p. if p = [] then Dir else Absent) task_demo))
     outdir_demo \<and>
   is_dir (fst (launch (\<lambda>t. CannotSpawn) (\<lambda>p. if p = [] then Dir else Absent) task_demo))
     [''products'', ''1''] \<and>
   is_dir (fst (launch (\<lambda>t. CannotSpawn) (\<lambda>p. if p = [] then Dir else Absent) task_demo))
     [''products''] \<and>
   take 2 (fst (snd (launch (\<lambda>t. CannotSpawn) (\<lambda>p. if p = [] then Dir else Absent) task_demo))) =
     [MadeDir outdir_demo, Checked (log_path2 outdir_demo)]"
proof -
  let ?fs = "\<lambda>p::path. if p = [] then Dir else Absent"
  let ?t = "(''1'', A, (ocfg_demo, rcfg_demo), (30, 70, 120, 10))"
  let ?r = "launch (\<lambda>t. CannotSpawn) ?fs ?t"
  have o: "outdir2 ?t = outdir_demo" by code_simp
  have "\<exists>fs1. mkdir_p ?fs outdir_demo = Inr fs1"
    by (simp add: mkdir_p.simps outdir_demo_def)
  then obtain fs1 where m: "mkdir_p ?fs (outdir2 ?t) = Inr fs1" using o by auto
  have l: "launch (\<lambda>t. CannotSpawn) ?fs ?t = (fst ?r, fst (snd ?r), snd (snd ?r))" by simp
  have wf: "\<forall>q. q \<noteq> [] \<and> ?fs q \<noteq> Absent \<longrightarrow> ?fs (butlast q) = Dir" by simp
  have p1: "prefix [''products'', ''1''] outdir_demo" and p2: "prefix [''products''] outdir_demo"
    by (simp_all add: outdir_demo_def)
  from C10_outdir_made_before_check[OF m l] wf
  have "is_dir (fst ?r) (outdir2 ?t)"
    and a: "\<forall>q. prefix q (outdir2 ?t) \<longrightarrow> is_dir (fst ?r) q"
    and "\<exists>rest. fst (snd ?r) = MadeDir (outdir2 ?t) # Checked (log_path2 (outdir2 ?t)) # rest"
    by blast+
  then have "is_dir (fst ?r) outdir_demo"
    and "take 2 (fst (snd ?r)) = [MadeDir outdir_demo, Checked (log_path2 outdir_demo)]"
    by (auto simp: o simp del: outdir2.simps)
  moreover from a p1 p2 have "is_dir (fst ?r) [''products'', ''1'']" "is_dir (fst ?r) [''products'']"
    unfolding o by blast+
  moreover have "\<not> is_dir ?fs outdir_demo" "\<not> is_dir ?fs [''products'']"
    by (simp_all add: is_dir_def outdir_demo_def)
  ultimately show ?thesis by (simp add: task_demo_def)
qed

end
